theory Spec2Isabelle
  imports Main "HOL-Library.AList" "HOL-Library.Char_ord" "HOL-Library.List_Lexorder"
begin

section \<open>Safety-save: autosave of unnamed documents (safety\_save.py)\<close>

text \<open>
  The plugin has two classes. \<^verbatim>\<open>SafetySavePluginAppExtension\<close> sweeps old session
  directories once, at application start. \<^verbatim>\<open>SafetySavePluginViewExtension\<close> is created
  per view; while its document is unnamed it writes the document's text to
  \<^verbatim>\<open>_store_path/NAME\<close> (NAME the display name) on a timer, and removes that file when the document
  is saved under a name.

  Everything the methods touch outside their own attributes is collected in the record
  \<open>world\<close>: the directory tree below \<^verbatim>\<open>_store_root\<close>, the settings object, the document,
  the timers and signal connections held by the host, the logger and the clock. A method
  is a function from the object's attributes and the world to an outcome and the new
  attributes and world. A raised exception is the outcome \<open>Inl\<close>; the state reached when
  it was raised is kept, as the effects of a Python method are when it raises.
\<close>

subsection \<open>Errors, files and directories\<close>

datatype error = OSError | AttributeError | ValueError | UnicodeEncodeError

text \<open>
  A directory is a list of named entries, in the order in which \<^verbatim>\<open>listdir\<close> returns them.
  The field \<open>fs\<close> of the world is what sits at \<^verbatim>\<open>_store_root\<close>: nothing, a regular file,
  or a directory. The program only ever names \<^verbatim>\<open>_store_root\<close>, an entry of it, and an
  entry of such an entry; a path below the root is therefore a session name, or a pair
  of a session name and a file name. The names that \<^verbatim>\<open>listdir\<close> returns are single path
  components; a display name need not be one.
\<close>

datatype node = File string | Dir "(string \<times> node) list"

type_synonym path = "string \<times> string"

datatype syscall =
    Makedirs string
  | OpenWrite path string
  | Unlink path
  | Rmdir string

datatype level = DEBUG | INFO | WARNING | ERROR

text \<open>
  What the environment answers to \<^verbatim>\<open>open(p, 'w')\<close> and the \<^verbatim>\<open>write\<close> that follows, beyond
  what the shape of the tree decides: nothing special, a refused \<^verbatim>\<open>open\<close> (permissions, a
  read-only medium), or a write that breaks off after so many characters (a full disk).
\<close>

datatype io_fault = NoFault | OpenFails | WriteFails nat

text \<open>
  The encoding that \<^verbatim>\<open>open\<close> takes from the locale. A text is a list of 8-bit characters;
  \<open>ASCII\<close> (the C locale) encodes the characters below 128, \<open>UTF8\<close> encodes every
  text that a buffer holds.
\<close>

datatype codec = UTF8 | ASCII

definition encodes :: "codec \<Rightarrow> string \<Rightarrow> bool" where
  "encodes c t = (case c of UTF8 \<Rightarrow> True | ASCII \<Rightarrow> list_all (\<lambda>x. (of_char x :: nat) < 128) t)"

text \<open>
  A name that \<^verbatim>\<open>join(_store_path, name)\<close> turns into an entry of the session directory:
  not empty, not \<^verbatim>\<open>.\<close> or \<^verbatim>\<open>..\<close>, and without a separator.
\<close>

definition component :: "string \<Rightarrow> bool" where
  "component n = (n \<noteq> [] \<and> n \<noteq> ''.'' \<and> n \<noteq> ''..'' \<and> CHR ''/'' \<notin> set n)"

record gsettings =
  auto_save :: bool
  auto_save_interval :: nat

record document =
  short_name :: string
  untitled :: bool
  untouched :: bool
  full_text :: string

record world =
  fs :: "node option"
  calls :: "syscall list"
  gedit_settings :: gsettings
  reads :: "string list"
  doc :: document
  handlers :: "nat list"
  timers :: "(nat \<times> nat) list"
  next_id :: nat
  log :: "(level \<times> string) list"
  start_timestamp :: string
  now :: int
  encoding :: codec
  fault :: io_fault

text \<open>\<^verbatim>\<open>_MAX_STORED_AGE_S = 86400 * 7 * 4\<close>\<close>

definition MAX_STORED_AGE_S :: int where
  "MAX_STORED_AGE_S = 86400 * 7 * 4"

subsubsection \<open>The calls of \<^verbatim>\<open>os\<close> and \<^verbatim>\<open>os.path\<close> that the plugin makes\<close>

text \<open>\<^verbatim>\<open>listdir(_store_root)\<close>: fails unless the root is a directory.\<close>

definition listdir_root :: "node option \<Rightarrow> error + string list" where
  "listdir_root f =
     (case f of Some (Dir es) \<Rightarrow> Inr (map fst es) | _ \<Rightarrow> Inl OSError)"

text \<open>The entry of the root called \<open>s\<close>, if the root is a directory that has one.\<close>

definition session :: "node option \<Rightarrow> string \<Rightarrow> node option" where
  "session f s = (case f of Some (Dir es) \<Rightarrow> map_of es s | _ \<Rightarrow> None)"

text \<open>What is at \<^verbatim>\<open>_store_root/s/n\<close>.\<close>

definition entry :: "node option \<Rightarrow> path \<Rightarrow> node option" where
  "entry f p =
     (case session f (fst p) of Some (Dir fes) \<Rightarrow> map_of fes (snd p) | _ \<Rightarrow> None)"

text \<open>\<^verbatim>\<open>listdir(join(_store_root, s))\<close>\<close>

definition listdir_session :: "node option \<Rightarrow> string \<Rightarrow> error + string list" where
  "listdir_session f s =
     (case session f s of Some (Dir fes) \<Rightarrow> Inr (map fst fes) | _ \<Rightarrow> Inl OSError)"

text \<open>\<^verbatim>\<open>exists(join(_store_root, s))\<close>\<close>

definition exists_session :: "node option \<Rightarrow> string \<Rightarrow> bool" where
  "exists_session f s = (session f s \<noteq> None)"

text \<open>
  \<^verbatim>\<open>makedirs(join(_store_root, s))\<close>: creates the root too when it is missing; fails when
  the root is a regular file or the entry exists already.
\<close>

definition fs_makedirs :: "node option \<Rightarrow> string \<Rightarrow> error + node option" where
  "fs_makedirs f s =
     (case f of
        None \<Rightarrow> Inr (Some (Dir [(s, Dir [])]))
      | Some (File _) \<Rightarrow> Inl OSError
      | Some (Dir es) \<Rightarrow>
          (case map_of es s of
             None \<Rightarrow> Inr (Some (Dir (es @ [(s, Dir [])])))
           | Some _ \<Rightarrow> Inl OSError))"

text \<open>
  The tree after the file at \<open>p\<close> was opened for writing and got the contents \<open>t\<close>. The
  parent must be a directory and \<open>p\<close> must not be one; an existing file loses its old
  contents, a missing one is created. A name that is not a single component is, with
  \<^verbatim>\<open>join\<close>, the session directory itself, its parent, or a place below a subdirectory;
  the first two are directories, and the third is taken to be missing, as it is in a
  session directory that \<^verbatim>\<open>makedirs\<close> has just made: the call fails.
\<close>

definition fs_write :: "node option \<Rightarrow> path \<Rightarrow> string \<Rightarrow> error + node option" where
  "fs_write f p t =
     (if \<not> component (snd p) then Inl OSError
      else
        (case f of
           Some (Dir es) \<Rightarrow>
             (case map_of es (fst p) of
                Some (Dir fes) \<Rightarrow>
                  (case map_of fes (snd p) of
                     Some (Dir _) \<Rightarrow> Inl OSError
                   | _ \<Rightarrow> Inr (Some (Dir (AList.update (fst p)
                                           (Dir (AList.update (snd p) (File t) fes)) es))))
              | _ \<Rightarrow> Inl OSError)
         | _ \<Rightarrow> Inl OSError))"

text \<open>\<^verbatim>\<open>unlink(p)\<close>: fails unless \<open>p\<close> is a regular file.\<close>

definition fs_unlink :: "node option \<Rightarrow> path \<Rightarrow> error + node option" where
  "fs_unlink f p =
     (case f of
        Some (Dir es) \<Rightarrow>
          (case map_of es (fst p) of
             Some (Dir fes) \<Rightarrow>
               (case map_of fes (snd p) of
                  Some (File _) \<Rightarrow>
                    Inr (Some (Dir (AList.update (fst p)
                                     (Dir (AList.delete (snd p) fes)) es)))
                | _ \<Rightarrow> Inl OSError)
           | _ \<Rightarrow> Inl OSError)
      | _ \<Rightarrow> Inl OSError)"

text \<open>\<^verbatim>\<open>rmdir(join(_store_root, s))\<close>: fails unless the entry is an empty directory.\<close>

definition fs_rmdir :: "node option \<Rightarrow> string \<Rightarrow> error + node option" where
  "fs_rmdir f s =
     (case f of
        Some (Dir es) \<Rightarrow>
          (case map_of es s of
             Some (Dir []) \<Rightarrow> Inr (Some (Dir (AList.delete s es)))
           | _ \<Rightarrow> Inl OSError)
      | _ \<Rightarrow> Inl OSError)"

text \<open>
  A call that changes the tree is recorded in \<open>calls\<close> when it is issued, whether it
  succeeds or not. \<^verbatim>\<open>makedirs\<close>, \<^verbatim>\<open>unlink\<close> and \<^verbatim>\<open>rmdir\<close> fail on the shape of the tree
  only, and leave it as it was when they fail.
\<close>

definition issue :: "syscall \<Rightarrow> (error + node option) \<Rightarrow> world \<Rightarrow> (error + unit) \<times> world" where
  "issue c r w =
     (case r of
        Inl e \<Rightarrow> (Inl e, w\<lparr>calls := calls w @ [c]\<rparr>)
      | Inr f \<Rightarrow> (Inr (), w\<lparr>calls := calls w @ [c], fs := f\<rparr>))"

definition makedirs :: "string \<Rightarrow> world \<Rightarrow> (error + unit) \<times> world" where
  "makedirs s w = issue (Makedirs s) (fs_makedirs (fs w) s) w"

text \<open>
  \<^verbatim>\<open>with open(p, 'w') as f: f.write(t)\<close>. \<^verbatim>\<open>open\<close> fails on the shape of the tree or because
  the environment refuses it, and the tree is then as before; otherwise the file exists
  and is empty. \<^verbatim>\<open>write\<close> encodes the whole text first, and raises \<open>UnicodeEncodeError\<close>
  with the file left empty when the encoding of the locale cannot; it then writes, and
  when the write breaks off the characters written so far stay in the file.
\<close>

definition write_file :: "path \<Rightarrow> string \<Rightarrow> world \<Rightarrow> (error + unit) \<times> world" where
  "write_file p t w =
     (let w0 = w\<lparr>calls := calls w @ [OpenWrite p t]\<rparr> in
      case fs_write (fs w) p [] of
        Inl e \<Rightarrow> (Inl e, w0)
      | Inr opened \<Rightarrow>
          if fault w = OpenFails then (Inl OSError, w0)
          else if \<not> encodes (encoding w) t then (Inl UnicodeEncodeError, w0\<lparr>fs := opened\<rparr>)
          else
            (case fault w of
               WriteFails n \<Rightarrow>
                 (case fs_write opened p (take n t) of
                    Inl e \<Rightarrow> (Inl e, w0\<lparr>fs := opened\<rparr>)
                  | Inr f' \<Rightarrow> (Inl OSError, w0\<lparr>fs := f'\<rparr>))
             | _ \<Rightarrow>
                 (case fs_write opened p t of
                    Inl e \<Rightarrow> (Inl e, w0\<lparr>fs := opened\<rparr>)
                  | Inr f' \<Rightarrow> (Inr (), w0\<lparr>fs := f'\<rparr>))))"

definition unlink :: "path \<Rightarrow> world \<Rightarrow> (error + unit) \<times> world" where
  "unlink p w = issue (Unlink p) (fs_unlink (fs w) p) w"

definition rmdir :: "string \<Rightarrow> world \<Rightarrow> (error + unit) \<times> world" where
  "rmdir s w = issue (Rmdir s) (fs_rmdir (fs w) s) w"

text \<open>
  A call of a method of \<^verbatim>\<open>_log\<close>. The entry keeps the level and the message text of the
  source, with the \<^verbatim>\<open>%\<close> place holders of the message left as they are.
\<close>

definition logger :: "level \<Rightarrow> string \<Rightarrow> world \<Rightarrow> world" where
  "logger l m w = w\<lparr>log := log w @ [(l, m)]\<rparr>"

subsection \<open>\<^verbatim>\<open>SafetySavePluginAppExtension\<close>: the sweep of old sessions\<close>

text \<open>
  \<^verbatim>\<open>datetime.strptime(name, _DATETIME_FORMAT)\<close> is library code; the sweep takes it as the
  parameter \<open>strptime\<close>, which returns the parsed instant in microseconds on the same
  axis as \<open>now\<close>, or \<open>ValueError\<close>. \<^verbatim>\<open>(datetime.now() - dt).total_seconds()\<close> is a number
  of seconds with microsecond resolution; the model keeps the age in whole microseconds
  and compares it with the limit in microseconds, which decides \<^verbatim>\<open>age < _MAX_STORED_AGE_S\<close>
  the same way. The clock is read as one instant for the whole sweep. The \<^verbatim>\<open>print\<close> that
  ends an iteration goes to standard output and is left out.
\<close>

type_synonym parser = "string \<Rightarrow> error + int"

text \<open>The inner loop \<^verbatim>\<open>for filename in listdir(path): unlink(join(path, filename))\<close>\<close>

fun unlink_all :: "string \<Rightarrow> string list \<Rightarrow> world \<Rightarrow> (error + unit) \<times> world" where
  "unlink_all s [] w = (Inr (), w)"
| "unlink_all s (n # ns) w =
     (case unlink (s, n) (logger INFO ''Removing: %s'' w) of
        (Inl e, w') \<Rightarrow> (Inl e, w')
      | (Inr _, w') \<Rightarrow> unlink_all s ns w')"

text \<open>The loop \<^verbatim>\<open>for timestamp_subdir in sorted(timestamp_subdirs)\<close>\<close>

fun cleanup_loop :: "parser \<Rightarrow> string list \<Rightarrow> world \<Rightarrow> (error + unit) \<times> world" where
  "cleanup_loop strptime [] w = (Inr (), w)"
| "cleanup_loop strptime (d # ds) w =
     (case strptime d of
        Inl e \<Rightarrow> (Inl e, w)
      | Inr dt \<Rightarrow>
          (let age = now w - dt in
           if age < MAX_STORED_AGE_S * 1000000 then
             cleanup_loop strptime ds (logger DEBUG ''[%s] is too recent: (%.2f) days'' w)
           else
             (let w1 = logger INFO ''Cleaning-up temporary storage for old session: %s'' w in
              case listdir_session (fs w1) d of
                Inl e \<Rightarrow> (Inl e, w1)
              | Inr names \<Rightarrow>
                  (case unlink_all d names w1 of
                     (Inl e, w2) \<Rightarrow> (Inl e, w2)
                   | (Inr _, w2) \<Rightarrow>
                       (case rmdir d (logger INFO ''Removing directory for session: %s'' w2) of
                          (Inl e, w3) \<Rightarrow> (Inl e, w3)
                        | (Inr _, w3) \<Rightarrow> cleanup_loop strptime ds w3)))))"

text \<open>\<^verbatim>\<open>__do_cleanup\<close>; the \<^verbatim>\<open>except OSError\<close> around the first \<^verbatim>\<open>listdir\<close> returns normally.\<close>

definition do_cleanup :: "parser \<Rightarrow> world \<Rightarrow> (error + unit) \<times> world" where
  "do_cleanup strptime w =
     (let w1 = logger DEBUG ''Doing old-session cleanup.'' w in
      case listdir_root (fs w1) of
        Inl _ \<Rightarrow> (Inr (), logger DEBUG ''The storage path doesn't exist: %s'' w1)
      | Inr timestamp_subdirs \<Rightarrow>
          cleanup_loop strptime (sort timestamp_subdirs)
            (logger DEBUG ''(%d) session-backup directories found.'' w1))"

text \<open>\<^verbatim>\<open>SafetySavePluginAppExtension.do_activate\<close>\<close>

definition app_do_activate :: "parser \<Rightarrow> world \<Rightarrow> (error + unit) \<times> world" where
  "app_do_activate strptime w = do_cleanup strptime w"

subsection \<open>\<^verbatim>\<open>SafetySavePluginViewExtension\<close>: the watcher of one document\<close>

text \<open>
  The attributes of the object. \<^verbatim>\<open>__watch_state\<close> is set by \<^verbatim>\<open>__init__\<close>; the others do
  not exist until a method assigns them (\<open>None\<close>), and \<^verbatim>\<open>del\<close> removes them again.
  Reading a missing attribute raises \<open>AttributeError\<close>. \<^verbatim>\<open>__document\<close> is the field
  \<open>doc\<close> of the world: \<^verbatim>\<open>do_activate\<close> assigns it before anything else.
\<close>

record view =
  watch_state :: bool
  enabled :: "bool option"
  run_interval_s :: "nat option"
  save_timer_id :: "nat option"
  sig_saved :: "nat option"
  file_path :: "path option"

text \<open>\<^verbatim>\<open>__init__\<close>\<close>

definition init :: view where
  "init = \<lparr>watch_state = False, enabled = None, run_interval_s = None,
           save_timer_id = None, sig_saved = None, file_path = None\<rparr>"

text \<open>\<^verbatim>\<open>__get_name\<close>\<close>

definition get_name :: "world \<Rightarrow> string" where
  "get_name w = short_name (doc w)"

text \<open>\<^verbatim>\<open>__log\<close>, through which \<^verbatim>\<open>__info\<close>, \<^verbatim>\<open>__debug\<close>, \<^verbatim>\<open>__error\<close> and \<^verbatim>\<open>__warning\<close> go.\<close>

definition vlog :: "level \<Rightarrow> string \<Rightarrow> world \<Rightarrow> world" where
  "vlog l m w = logger l (''['' @ get_name w @ ''] '' @ m) w"

text \<open>\<^verbatim>\<open>__ensure_path\<close>, with \<^verbatim>\<open>_store_path = join(_store_root, _start_timestamp)\<close>\<close>

definition ensure_path :: "world \<Rightarrow> (error + unit) \<times> world" where
  "ensure_path w =
     (if \<not> exists_session (fs w) (start_timestamp w) then
        makedirs (start_timestamp w)
          (vlog INFO ''Creating temporary unsaved store path: %s'' w)
      else (Inr (), w))"

text \<open>
  \<^verbatim>\<open>__is_enabled\<close>: the \<^verbatim>\<open>try\<close> returns the cached attribute; the handler of
  \<open>AttributeError\<close> reads both settings, once. \<open>reads\<close> records the keys read.
\<close>

definition is_enabled :: "view \<Rightarrow> world \<Rightarrow> bool \<times> view \<times> world" where
  "is_enabled v w =
     (case enabled v of
        Some b \<Rightarrow> (b, v, w)
      | None \<Rightarrow>
          (let b = auto_save (gedit_settings w);
               w1 = w\<lparr>reads := reads w @ [''auto-save'']\<rparr>;
               v1 = v\<lparr>enabled := Some b\<rparr>;
               v2 = v1\<lparr>run_interval_s := Some (auto_save_interval (gedit_settings w1))\<rparr>;
               w2 = w1\<lparr>reads := reads w1 @ [''auto-save-interval'']\<rparr>;
               w3 = (if \<not> b then
                       vlog WARNING
                         ''Plugin will not do anything because the standard 'auto-save' configurable is not enabled.''
                         w2
                     else w2)
           in (b, v2, vlog DEBUG ''Enabled? %s'' w3)))"

text \<open>
  \<^verbatim>\<open>__set_schedule\<close>: \<^verbatim>\<open>GObject.timeout_add_seconds\<close> registers a source with the host and
  returns its fresh id; \<open>timers\<close> holds the registered sources with their intervals.
\<close>

definition set_schedule :: "view \<Rightarrow> world \<Rightarrow> (error + unit) \<times> view \<times> world" where
  "set_schedule v w =
     (case run_interval_s v of
        None \<Rightarrow> (Inl AttributeError, v, w)
      | Some n \<Rightarrow>
          (let wait_s = n * 60;
               w1 = vlog DEBUG ''Scheduling save for (%d) second intervals.'' w;
               i = next_id w1;
               w2 = w1\<lparr>timers := timers w1 @ [(i, wait_s)], next_id := Suc i\<rparr>
           in (Inr (), v\<lparr>save_timer_id := Some i\<rparr>, w2)))"

text \<open>\<^verbatim>\<open>__clear_schedule\<close>\<close>

definition clear_schedule :: "view \<Rightarrow> world \<Rightarrow> (error + unit) \<times> view \<times> world" where
  "clear_schedule v w =
     (let w1 = vlog DEBUG ''Cancelling save schedule.'' w in
      case save_timer_id v of
        None \<Rightarrow> (Inl AttributeError, v, w1)
      | Some i \<Rightarrow>
          (Inr (), v\<lparr>save_timer_id := None\<rparr>,
           w1\<lparr>timers := filter (\<lambda>t. fst t \<noteq> i) (timers w1)\<rparr>))"

text \<open>
  \<^verbatim>\<open>__hook_signals\<close>: \<^verbatim>\<open>connect\<close> returns a fresh handler id; \<open>handlers\<close> holds the
  handlers connected to the document's \<^verbatim>\<open>saved\<close> signal.
\<close>

definition hook_signals :: "view \<Rightarrow> world \<Rightarrow> view \<times> world" where
  "hook_signals v w =
     (let w1 = vlog DEBUG ''Configuring 'saved' signal handler.'' w;
          h = next_id w1;
          w2 = w1\<lparr>handlers := handlers w1 @ [h], next_id := Suc h\<rparr>
      in (v\<lparr>sig_saved := Some h\<rparr>, w2))"

text \<open>\<^verbatim>\<open>__unhook_signals\<close>\<close>

definition unhook_signals :: "view \<Rightarrow> world \<Rightarrow> (error + unit) \<times> view \<times> world" where
  "unhook_signals v w =
     (let w1 = vlog DEBUG ''Removing 'saved' signal handler.'' w in
      case sig_saved v of
        None \<Rightarrow> (Inl AttributeError, v, w1)
      | Some h \<Rightarrow>
          (Inr (), v\<lparr>sig_saved := None\<rparr>,
           w1\<lparr>handlers := filter (\<lambda>x. x \<noteq> h) (handlers w1)\<rparr>))"

text \<open>\<^verbatim>\<open>__watch_start\<close>\<close>

definition watch_start :: "view \<Rightarrow> world \<Rightarrow> (error + unit) \<times> view \<times> world" where
  "watch_start v w =
     (let v1 = v\<lparr>watch_state := True\<rparr>;
          w1 = vlog DEBUG ''Starting watch.'' w;
          v2 = v1\<lparr>file_path := Some (start_timestamp w1, get_name w1)\<rparr>
      in case hook_signals v2 w1 of (v3, w3) \<Rightarrow> set_schedule v3 w3)"

text \<open>\<^verbatim>\<open>__is_watching\<close>\<close>

definition is_watching :: "view \<Rightarrow> bool" where
  "is_watching v = watch_state v"

text \<open>\<^verbatim>\<open>__watch_stop\<close>\<close>

definition watch_stop :: "view \<Rightarrow> world \<Rightarrow> (error + unit) \<times> view \<times> world" where
  "watch_stop v w =
     (if \<not> is_watching v then (Inr (), v, w)
      else
        (let v1 = v\<lparr>watch_state := False\<rparr>;
             w1 = vlog DEBUG ''Stopping watch.'' w
         in case clear_schedule v1 w1 of
              (Inl e, v2, w2) \<Rightarrow> (Inl e, v2, w2)
            | (Inr _, v2, w2) \<Rightarrow> unhook_signals v2 w2))"

text \<open>\<^verbatim>\<open>__cleanup_temp_file\<close>\<close>

definition cleanup_temp_file :: "view \<Rightarrow> world \<Rightarrow> (error + unit) \<times> view \<times> world" where
  "cleanup_temp_file v w =
     (case file_path v of
        None \<Rightarrow> (Inl AttributeError, v, w)
      | Some p \<Rightarrow>
          (case unlink p (vlog INFO ''Cleaning-up temporary file: %s'' w) of
             (Inl e, w1) \<Rightarrow> (Inl e, v, w1)
           | (Inr _, w1) \<Rightarrow>
               (case listdir_session (fs w1) (start_timestamp w1) of
                  Inl e \<Rightarrow> (Inl e, v, w1)
                | Inr names \<Rightarrow>
                    (let temp_file_count = length names in
                     if temp_file_count > 0 then
                       (Inr (), v,
                        vlog DEBUG ''Other temporary files still exist for this session.'' w1)
                     else
                       (case rmdir (start_timestamp w1)
                               (vlog INFO
                                  ''No more temporary files exist for this session. Removing storage path: %s''
                                  w1) of
                          (r, w2) \<Rightarrow> (r, v, w2))))))"

text \<open>\<^verbatim>\<open>__on_saved\<close>\<close>

definition on_saved :: "view \<Rightarrow> world \<Rightarrow> (error + unit) \<times> view \<times> world" where
  "on_saved v w =
     (if is_watching v then
        (case watch_stop v w of
           (Inl e, v1, w1) \<Rightarrow> (Inl e, v1, w1)
         | (Inr _, v1, w1) \<Rightarrow> cleanup_temp_file v1 w1)
      else (Inr (), v, w))"

text \<open>
  \<^verbatim>\<open>__store_unsaved_cb\<close>, the timer's callback. Its result \<open>True\<close> tells the host to keep
  the timer.
\<close>

definition store_unsaved_cb :: "view \<Rightarrow> world \<Rightarrow> (error + bool) \<times> view \<times> world" where
  "store_unsaved_cb v w =
     (let w1 = vlog DEBUG ''Checking state of unsaved document.'' w in
      if untouched (doc w1) then
        (Inr True, v,
         vlog DEBUG
           ''Unsaved document has not been touched and will not be stored/updated on disk.'' w1)
      else
        (case ensure_path w1 of
           (Inl e, w2) \<Rightarrow> (Inl e, v, w2)
         | (Inr _, w2) \<Rightarrow>
             (let txt = full_text (doc w2) in
              case file_path v of
                None \<Rightarrow> (Inl AttributeError, v, w2)
              | Some p \<Rightarrow>
                  (case write_file p txt
                          (vlog INFO ''Storing unnamed file as (%d) bytes to: %s'' w2) of
                     (Inl e, w3) \<Rightarrow> (Inl e, v, w3)
                   | (Inr _, w3) \<Rightarrow> (Inr True, v, w3)))))"

text \<open>\<^verbatim>\<open>SafetySavePluginViewExtension.do_activate\<close>\<close>

definition do_activate :: "view \<Rightarrow> world \<Rightarrow> (error + unit) \<times> view \<times> world" where
  "do_activate v w =
     (case is_enabled v w of
        (b, v1, w1) \<Rightarrow>
          if \<not> b then (Inr (), v1, vlog WARNING ''Plugin is not enabled.'' w1)
          else if \<not> untitled (doc w1) then
            (Inr (), v1, vlog DEBUG ''Document is already assigned a name. Skipping.'' w1)
          else watch_start v1 w1)"

text \<open>\<^verbatim>\<open>SafetySavePluginViewExtension.do_deactivate\<close>\<close>

definition do_deactivate :: "view \<Rightarrow> world \<Rightarrow> (error + unit) \<times> view \<times> world" where
  "do_deactivate v w =
     (case is_enabled v w of
        (b, v1, w1) \<Rightarrow> if \<not> b then (Inr (), v1, w1) else watch_stop v1 w1)"

subsection \<open>The host's side of the callbacks\<close>

text \<open>
  What the host does with the object, as the contracts of the calls above have it: it
  activates and deactivates the extension; a registered timer calls the callback, and is
  removed when the callback returns \<open>False\<close>; the document's \<^verbatim>\<open>saved\<close> signal calls the
  handler while one is connected; in between the user edits the document or changes the
  settings. A run of events stops at the first exception.
\<close>

datatype event =
    Activate
  | Deactivate
  | TimerFires nat
  | Saved
  | UserEdit document
  | SettingsChanged gsettings

fun host_step :: "event \<Rightarrow> view \<Rightarrow> world \<Rightarrow> (error + unit) \<times> view \<times> world" where
  "host_step Activate v w = do_activate v w"
| "host_step Deactivate v w = do_deactivate v w"
| "host_step (TimerFires i) v w =
     (if i \<in> fst ` set (timers w) then
        (case store_unsaved_cb v w of
           (Inl e, v', w') \<Rightarrow> (Inl e, v', w')
         | (Inr True, v', w') \<Rightarrow> (Inr (), v', w')
         | (Inr False, v', w') \<Rightarrow>
             (Inr (), v', w'\<lparr>timers := filter (\<lambda>t. fst t \<noteq> i) (timers w')\<rparr>))
      else (Inr (), v, w))"
| "host_step Saved v w =
     (if handlers w \<noteq> [] then on_saved v w else (Inr (), v, w))"
| "host_step (UserEdit d) v w = (Inr (), v, w\<lparr>doc := d\<rparr>)"
| "host_step (SettingsChanged g) v w = (Inr (), v, w\<lparr>gedit_settings := g\<rparr>)"

fun run :: "event list \<Rightarrow> view \<Rightarrow> world \<Rightarrow> (error + unit) \<times> view \<times> world" where
  "run [] v w = (Inr (), v, w)"
| "run (e # es) v w =
     (case host_step e v w of
        (Inl x, v', w') \<Rightarrow> (Inl x, v', w')
      | (Inr _, v', w') \<Rightarrow> run es v' w')"

subsection \<open>Well-formed stores and the states of a watcher\<close>

text \<open>
  \<open>recent\<close> is the test of the sweep's \<^verbatim>\<open>if age < _MAX_STORED_AGE_S: continue\<close> for a name
  that parses.
\<close>

definition recent :: "parser \<Rightarrow> int \<Rightarrow> string \<Rightarrow> bool" where
  "recent strptime t n =
     (case strptime n of Inl _ \<Rightarrow> False | Inr dt \<Rightarrow> t - dt < MAX_STORED_AGE_S * 1000000)"

definition is_file :: "node \<Rightarrow> bool" where
  "is_file x = (case x of File _ \<Rightarrow> True | Dir _ \<Rightarrow> False)"

text \<open>A session directory as the watchers leave it: regular files under distinct names.\<close>

definition session_dir :: "node \<Rightarrow> bool" where
  "session_dir x =
     (case x of
        File _ \<Rightarrow> False
      | Dir fes \<Rightarrow> distinct (map fst fes) \<and> list_all (\<lambda>e. is_file (snd e)) fes)"

text \<open>
  A store as this program leaves it: the root is a directory whose entries have
  distinct names, each name parses as a session timestamp, and each entry that is due
  for removal is a session directory.
\<close>

definition store_ok :: "parser \<Rightarrow> int \<Rightarrow> (string \<times> node) list \<Rightarrow> bool" where
  "store_ok strptime t es =
     (distinct (map fst es) \<and>
      list_all (\<lambda>e. (case strptime (fst e) of Inl _ \<Rightarrow> False | Inr _ \<Rightarrow> True) \<and>
                     (recent strptime t (fst e) \<or> session_dir (snd e))) es)"

text \<open>The names inside the entry \<open>d\<close> of the root, as \<^verbatim>\<open>listdir\<close> gives them.\<close>

definition names_in :: "(string \<times> node) list \<Rightarrow> string \<Rightarrow> string list" where
  "names_in es d = (case map_of es d of Some (Dir fes) \<Rightarrow> map fst fes | _ \<Rightarrow> [])"

text \<open>The calls that remove the session \<open>d\<close>: one \<^verbatim>\<open>unlink\<close> per file, then \<^verbatim>\<open>rmdir\<close>.\<close>

definition removal :: "(string \<times> node) list \<Rightarrow> string \<Rightarrow> syscall list" where
  "removal es d = map (\<lambda>n. Unlink (d, n)) (names_in es d) @ [Rmdir d]"

text \<open>
  The state that \<^verbatim>\<open>__watch_start\<close> establishes: the flag is set, the settings are cached
  as enabled, the timer \<open>i\<close> is registered with the host, the handler \<open>h\<close> is connected,
  and the path \<open>p\<close> of the temp file lies in this session's directory.
\<close>

definition watching :: "view \<Rightarrow> world \<Rightarrow> nat \<Rightarrow> nat \<Rightarrow> path \<Rightarrow> bool" where
  "watching v w i h p =
     (watch_state v \<and> enabled v = Some True \<and> run_interval_s v \<noteq> None \<and>
      save_timer_id v = Some i \<and> i \<in> fst ` set (timers w) \<and>
      sig_saved v = Some h \<and> h \<in> set (handlers w) \<and>
      file_path v = Some p \<and> fst p = start_timestamp w)"




subsection \<open>Concrete inputs\<close>

text \<open>
  An instance of the parameter \<open>strptime\<close> for the examples: it reads a name of the shape
  that \<^verbatim>\<open>strftime('%Y%m%d-%H%M%S')\<close> produces (eight digits, a dash, six digits) as the
  microseconds since the start of the proleptic Gregorian day 0, and rejects every
  other string. The examples use names of that shape only.
\<close>

definition digit_val :: "char \<Rightarrow> nat option" where
  "digit_val c =
     (let k = (of_char c :: nat) in if 48 \<le> k \<and> k \<le> 57 then Some (k - 48) else None)"

fun digits_val :: "nat \<Rightarrow> string \<Rightarrow> nat option" where
  "digits_val acc [] = Some acc"
| "digits_val acc (c # cs) =
     (case digit_val c of None \<Rightarrow> None | Some d \<Rightarrow> digits_val (acc * 10 + d) cs)"

definition is_leap :: "int \<Rightarrow> bool" where
  "is_leap y = (y mod 4 = 0 \<and> (y mod 100 \<noteq> 0 \<or> y mod 400 = 0))"

definition days_in_month :: "int \<Rightarrow> int \<Rightarrow> int" where
  "days_in_month y m =
     (if m = 2 then (if is_leap y then 29 else 28)
      else if m = 4 \<or> m = 6 \<or> m = 9 \<or> m = 11 then 30 else 31)"

definition ordinal :: "int \<Rightarrow> int \<Rightarrow> int \<Rightarrow> int" where
  "ordinal y m d =
     (y - 1) * 365 + (y - 1) div 4 - (y - 1) div 100 + (y - 1) div 400
       + sum_list (map (days_in_month y) [1..m - 1]) + d"

definition strptime_canon :: parser where
  "strptime_canon s =
     (if length s = 15 \<and> s ! 8 = CHR ''-'' then
        (case those (map (\<lambda>(k, n). map_option int (digits_val 0 (take n (drop k s))))
                      [(0, 4), (4, 2), (6, 2), (9, 2), (11, 2), (13, 2)]) of
           Some [y, m, d, hh, mm, ss] \<Rightarrow>
             if 1 \<le> y \<and> 1 \<le> m \<and> m \<le> 12 \<and> 1 \<le> d \<and> d \<le> days_in_month y m
                \<and> hh < 24 \<and> mm < 60 \<and> ss < 60
             then Inr ((ordinal y m d * 86400 + hh * 3600 + mm * 60 + ss) * 1000000)
             else Inl ValueError
         | _ \<Rightarrow> Inl ValueError)
      else Inl ValueError)"

text \<open>
  A fresh process started on 1 March 2024 at noon: no store yet, autosave enabled every
  ten minutes, one unnamed and untouched document.
\<close>

definition ex_doc :: document where
  "ex_doc = \<lparr>short_name = ''Untitled Document 1'', untitled = True, untouched = True,
             full_text = []\<rparr>"

definition ex_world :: world where
  "ex_world =
     \<lparr>fs = None, calls = [], gedit_settings = \<lparr>auto_save = True, auto_save_interval = 10\<rparr>,
      reads = [], doc = ex_doc, handlers = [], timers = [], next_id = 1, log = [],
      start_timestamp = ''20240301-120000'', now = 63844977600250000,
      encoding = UTF8, fault = NoFault\<rparr>"

text \<open>The same with sessions of 50, 20 and 1 days ago in the store.\<close>

definition ex_store :: "(string \<times> node) list" where
  "ex_store =
     [(''20240229-120000'', Dir [(''Untitled Document 1'', File ''c'')]),
      (''20240111-120000'', Dir [(''Untitled Document 1'', File ''a''),
                                 (''Untitled Document 2'', File ''aa'')]),
      (''20240210-120000'', Dir [(''Untitled Document 1'', File ''b'')])]"

definition ex_world_old :: world where
  "ex_world_old = ex_world\<lparr>fs := Some (Dir ex_store)\<rparr>"

text \<open>The watcher of that document after \<^verbatim>\<open>do_activate\<close>.\<close>

definition ex_view1 :: view where
  "ex_view1 = fst (snd (do_activate init ex_world))"

definition ex_world1 :: world where
  "ex_world1 = snd (snd (do_activate init ex_world))"

definition ex_path :: path where
  "ex_path = (''20240301-120000'', ''Untitled Document 1'')"

text \<open>The user types \<open>hello\<close> and the timer fires once.\<close>

definition ex_hello :: document where
  "ex_hello = ex_doc\<lparr>untouched := False, full_text := ''hello''\<rparr>"

definition ex_view2 :: view where
  "ex_view2 = fst (snd (run [UserEdit ex_hello, TimerFires 2] ex_view1 ex_world1))"

definition ex_world2 :: world where
  "ex_world2 = snd (snd (run [UserEdit ex_hello, TimerFires 2] ex_view1 ex_world1))"

text \<open>The fresh process with autosave switched off, and with a document that has a name.\<close>

definition ex_world_off :: world where
  "ex_world_off = ex_world\<lparr>gedit_settings := \<lparr>auto_save = False, auto_save_interval = 10\<rparr>\<rparr>"

definition ex_world_named :: world where
  "ex_world_named = ex_world\<lparr>doc := ex_doc\<lparr>short_name := ''notes.txt'', untitled := False\<rparr>\<rparr>"



text \<open>The entries of the log that were logged at error level.\<close>

definition error_log :: "world \<Rightarrow> (level \<times> string) list" where
  "error_log w = filter (\<lambda>e. fst e = ERROR) (log w)"



definition ex_world_emptied :: world where
  "ex_world_emptied = ex_world1\<lparr>fs := Some (Dir [(''20240301-120000'', Dir [])]), doc := ex_hello\<rparr>"

definition ex_world_shared :: world where
  "ex_world_shared =
     ex_world1\<lparr>fs := Some (Dir [(''20240301-120000'',
                                   Dir [(''Untitled Document 1'', File ''hello''),
                                        (''Untitled Document 2'', File ''other'')])]),
                doc := ex_hello\<rparr>"

text \<open>The calls that create or write: \<^verbatim>\<open>makedirs\<close> and \<^verbatim>\<open>open(..., 'w')\<close>.\<close>

definition is_write :: "syscall \<Rightarrow> bool" where
  "is_write c = (case c of Makedirs _ \<Rightarrow> True | OpenWrite _ _ \<Rightarrow> True | _ \<Rightarrow> False)"

text \<open>A watcher that has cached the disabled toggle and has nothing registered.\<close>

definition disabled :: "view \<Rightarrow> world \<Rightarrow> bool" where
  "disabled v w =
     (enabled v = Some False \<and> \<not> watch_state v \<and> timers w = [] \<and> handlers w = [])"

text \<open>A later state of the disabled process: the user has switched autosave on in the
  settings, edited the document and saved it; timers and signals were fired at it.\<close>

definition ex_events_off :: "event list" where
  "ex_events_off =
     [TimerFires 2, UserEdit ex_hello,
      SettingsChanged \<lparr>auto_save = True, auto_save_interval = 1\<rparr>, Activate,
      TimerFires 2, UserEdit (ex_hello\<lparr>short_name := ''notes.txt'', untitled := False\<rparr>),
      Saved, Deactivate]"

text \<open>The same process with the old sessions of \<open>ex_store\<close> in the store.\<close>

definition ex_world_off_old :: world where
  "ex_world_off_old = ex_world_off\<lparr>fs := Some (Dir ex_store)\<rparr>"

text \<open>Two worlds are equal in every field except, possibly, the settings.\<close>

definition agree :: "world \<Rightarrow> world \<Rightarrow> bool" where
  "agree w1 w2 = (w1\<lparr>gedit_settings := gedit_settings w2\<rparr> = w2)"

text \<open>A run of events without its changes of the settings.\<close>

definition is_settings_change :: "event \<Rightarrow> bool" where
  "is_settings_change e = (case e of SettingsChanged _ \<Rightarrow> True | _ \<Rightarrow> False)"

definition strip_settings :: "event list \<Rightarrow> event list" where
  "strip_settings evs = filter (\<lambda>e. \<not> is_settings_change e) evs"

text \<open>A session in which the user changes the autosave settings while the document is
  being watched.\<close>

definition ex_events_settings :: "event list" where
  "ex_events_settings =
     [UserEdit ex_hello, SettingsChanged \<lparr>auto_save = False, auto_save_interval = 1\<rparr>,
      TimerFires 2, Deactivate, Activate]"

definition ex_world1_off :: world where
  "ex_world1_off = ex_world1\<lparr>gedit_settings := \<lparr>auto_save = False, auto_save_interval = 1\<rparr>\<rparr>"


section \<open>Properties\<close>

subsection \<open>Logging changes nothing but the log\<close>

lemma logger_frame [simp]:
  "fs (logger l m w) = fs w" "calls (logger l m w) = calls w"
  "timers (logger l m w) = timers w" "handlers (logger l m w) = handlers w"
  "doc (logger l m w) = doc w" "gedit_settings (logger l m w) = gedit_settings w"
  "reads (logger l m w) = reads w" "next_id (logger l m w) = next_id w"
  "start_timestamp (logger l m w) = start_timestamp w" "now (logger l m w) = now w"
  "encoding (logger l m w) = encoding w" "fault (logger l m w) = fault w"
  "log (logger l m w) = log w @ [(l, m)]"
  by (simp_all add: logger_def)

lemma vlog_frame [simp]:
  "fs (vlog l m w) = fs w" "calls (vlog l m w) = calls w"
  "timers (vlog l m w) = timers w" "handlers (vlog l m w) = handlers w"
  "doc (vlog l m w) = doc w" "gedit_settings (vlog l m w) = gedit_settings w"
  "reads (vlog l m w) = reads w" "next_id (vlog l m w) = next_id w"
  "start_timestamp (vlog l m w) = start_timestamp w" "now (vlog l m w) = now w"
  "encoding (vlog l m w) = encoding w" "fault (vlog l m w) = fault w"
  "log (vlog l m w) = log w @ [(l, ''['' @ short_name (doc w) @ ''] '' @ m)]"
  by (simp_all add: vlog_def get_name_def)

lemma error_log_vlog [simp]: "l \<noteq> ERROR \<Longrightarrow> error_log (vlog l m w) = error_log w"
  by (simp add: error_log_def)

lemma error_log_frame [simp]:
  "error_log (w\<lparr>calls := c\<rparr>) = error_log w" "error_log (w\<lparr>fs := f\<rparr>) = error_log w"
  "error_log (w\<lparr>timers := ts\<rparr>) = error_log w" "error_log (w\<lparr>handlers := hs\<rparr>) = error_log w"
  by (simp_all add: error_log_def)

lemma is_enabled_cached: "enabled v = Some b \<Longrightarrow> is_enabled v w = (b, v, w)"
  by (simp add: is_enabled_def)

subsection \<open>Facts about the concrete inputs\<close>

lemma ex1_watching: "watching ex_view1 ex_world1 2 1 ex_path"
  by code_simp

lemma ex1_world:
  "untouched (doc ex_world1)" "fs ex_world1 = None" "calls ex_world1 = []"
  "timers ex_world1 = [(2, 600)]" "handlers ex_world1 = [1]"
  by code_simp+

lemma ex2_watching: "watching ex_view2 ex_world2 2 1 ex_path"
  by code_simp

lemma ex2_world:
  "entry (fs ex_world2) ex_path = Some (File ''hello'')"
  "timers ex_world2 = [(2, 600)]" "handlers ex_world2 = [1]"
  by code_simp+

subsection \<open>The tick on an untouched document\<close>

text \<open>
  Claim C5. A tick that finds the document untouched returns \<open>True\<close>, so the host keeps
  the timer, and does nothing else: the tree is the same, no call that could change it
  has been issued (so no file and no session directory was created or modified), the
  object's attributes are the same, and the timers and handlers are the same.
\<close>

theorem tick_untouched:
  assumes "untouched (doc w)"
  shows "case store_unsaved_cb v w of (r, v', w') \<Rightarrow>
           r = Inr True \<and> v' = v \<and> fs w' = fs w \<and> calls w' = calls w \<and>
           timers w' = timers w \<and> handlers w' = handlers w"
  using assms by (simp add: store_unsaved_cb_def)

theorem tick_untouched_witness:
  "untouched (doc ex_world1) \<and>
   (case store_unsaved_cb ex_view1 ex_world1 of (r, v', w') \<Rightarrow>
      r = Inr True \<and> fs w' = None \<and> calls w' = [] \<and> timers w' = [(2, 600)])"
  using tick_untouched [OF ex1_world(1), of ex_view1] ex1_world
  by (auto split: prod.splits)

subsection \<open>The sweep without a store\<close>

text \<open>
  Claim C6. When nothing exists at the store root, the sweep returns normally, the root
  is still missing, and no call that could remove anything has been issued.
\<close>

theorem sweep_no_root:
  assumes "fs w = None"
  shows "case do_cleanup strptime w of (r, w') \<Rightarrow>
           r = Inr () \<and> fs w' = None \<and> calls w' = calls w"
  using assms by (simp add: do_cleanup_def listdir_root_def)

theorem sweep_no_root_witness:
  "fs ex_world = None \<and>
   (case do_cleanup strptime_canon ex_world of (r, w') \<Rightarrow>
      r = Inr () \<and> fs w' = None \<and> calls w' = [])"
proof -
  have h: "fs ex_world = None" by (simp add: ex_world_def)
  have c: "calls ex_world = []" by (simp add: ex_world_def)
  show ?thesis
    using h c sweep_no_root [OF h, of strptime_canon] by (auto split: prod.splits)
qed

subsection \<open>Stopping without a save\<close>

text \<open>
  Claim C4. Deactivating a watcher that is watching returns normally, clears the flag,
  removes the timer from the host and the handler from the document, and issues no call
  on the tree: the tree, and with it the temp file, is exactly what it was.
\<close>

theorem stop_keeps_temp_file:
  assumes "watching v w i h p"
  shows "case do_deactivate v w of (r, v', w') \<Rightarrow>
           r = Inr () \<and> \<not> watch_state v' \<and>
           save_timer_id v' = None \<and> i \<notin> fst ` set (timers w') \<and>
           sig_saved v' = None \<and> h \<notin> set (handlers w') \<and>
           fs w' = fs w \<and> calls w' = calls w \<and> entry (fs w') p = entry (fs w) p"
  using assms
  by (auto simp add: watching_def do_deactivate_def is_enabled_cached watch_stop_def
      is_watching_def clear_schedule_def unhook_signals_def Let_def)

theorem stop_keeps_temp_file_witness:
  "watching ex_view2 ex_world2 2 1 ex_path \<and>
   (case do_deactivate ex_view2 ex_world2 of (r, v', w') \<Rightarrow>
      r = Inr () \<and> \<not> watch_state v' \<and> 2 \<notin> fst ` set (timers w') \<and>
      1 \<notin> set (handlers w') \<and> entry (fs w') ex_path = Some (File ''hello''))"
  using stop_keeps_temp_file [OF ex2_watching] ex2_watching ex2_world(1)
  by (auto split: prod.splits)

subsection \<open>Stopping a watcher that never watched\<close>

lemma deactivate_not_watching:
  "\<not> watch_state v \<Longrightarrow> enabled v = Some b \<Longrightarrow> do_deactivate v w = (Inr (), v, w)"
  by (simp add: do_deactivate_def is_enabled_cached watch_stop_def is_watching_def)

lemma activate_disabled:
  assumes "\<not> auto_save (gedit_settings w)"
  shows "case do_activate init w of (r, v1, w1) \<Rightarrow>
           r = Inr () \<and> \<not> watch_state v1 \<and> enabled v1 = Some False \<and>
           save_timer_id v1 = None \<and> sig_saved v1 = None \<and>
           timers w1 = timers w \<and> handlers w1 = handlers w \<and>
           fs w1 = fs w \<and> calls w1 = calls w"
  using assms by (simp add: do_activate_def is_enabled_def init_def Let_def)

lemma activate_named:
  assumes "auto_save (gedit_settings w)" "\<not> untitled (doc w)"
  shows "case do_activate init w of (r, v1, w1) \<Rightarrow>
           r = Inr () \<and> \<not> watch_state v1 \<and> enabled v1 = Some True \<and>
           save_timer_id v1 = None \<and> sig_saved v1 = None \<and>
           timers w1 = timers w \<and> handlers w1 = handlers w \<and>
           fs w1 = fs w \<and> calls w1 = calls w"
  using assms by (simp add: do_activate_def is_enabled_def init_def Let_def)

text \<open>
  Claim C9. When the feature is disabled, or the document has a name already,
  \<^verbatim>\<open>do_activate\<close> on a new object does not start the watch and registers neither timer
  nor handler; \<^verbatim>\<open>do_deactivate\<close> on the object it leaves then returns normally and
  changes nothing at all, whatever the world has become: no timer is cancelled, no
  handler disconnected, no file touched.
\<close>

theorem stop_never_watched:
  assumes "\<not> auto_save (gedit_settings w) \<or> \<not> untitled (doc w)"
  shows "case do_activate init w of (r, v1, w1) \<Rightarrow>
           r = Inr () \<and> \<not> watch_state v1 \<and>
           timers w1 = timers w \<and> handlers w1 = handlers w \<and>
           (\<forall>w2. do_deactivate v1 w2 = (Inr (), v1, w2))"
proof (cases "auto_save (gedit_settings w)")
  case False
  from activate_disabled [OF this] show ?thesis
    by (auto split: prod.splits simp add: deactivate_not_watching)
next
  case True
  with assms have "\<not> untitled (doc w)" by simp
  from activate_named [OF True this] show ?thesis
    by (auto split: prod.splits simp add: deactivate_not_watching)
qed

theorem stop_never_watched_witness:
  "\<not> auto_save (gedit_settings ex_world_off) \<and> \<not> untitled (doc ex_world_named) \<and>
   (case do_activate init ex_world_off of (r, v1, w1) \<Rightarrow>
      do_deactivate v1 ex_world2 = (Inr (), v1, ex_world2)) \<and>
   (case do_activate init ex_world_named of (r, v1, w1) \<Rightarrow>
      do_deactivate v1 ex_world2 = (Inr (), v1, ex_world2))"
proof -
  have a: "\<not> auto_save (gedit_settings ex_world_off)" by code_simp
  have b: "\<not> untitled (doc ex_world_named)" by code_simp
  show ?thesis
    using a b stop_never_watched [of ex_world_off] stop_never_watched [of ex_world_named]
    by (auto split: prod.splits)
qed

subsection \<open>The sweep on a store with old sessions\<close>

lemma delete_as_filter: "AList.delete k al = filter (\<lambda>e. fst e \<noteq> k) al"
  by (induction al) auto

lemma unlink_file:
  assumes "fs w = Some (Dir es)" "map_of es d = Some (Dir fes)" "map_of fes n = Some (File t)"
  shows "unlink (d, n) w =
           (Inr (), w\<lparr>calls := calls w @ [Unlink (d, n)],
                      fs := Some (Dir (AList.update d (Dir (AList.delete n fes)) es))\<rparr>)"
  using assms by (simp add: unlink_def issue_def fs_unlink_def)

lemma unlink_all_ok:
  assumes "fs w = Some (Dir es)" "map_of es d = Some (Dir fes)" "distinct ns"
    and "\<forall>n\<in>set ns. \<exists>t. map_of fes n = Some (File t)"
  shows "case unlink_all d ns w of (r, w') \<Rightarrow>
           r = Inr () \<and>
           fs w' = Some (Dir (AList.update d (Dir (filter (\<lambda>e. fst e \<notin> set ns) fes)) es)) \<and>
           calls w' = calls w @ map (\<lambda>n. Unlink (d, n)) ns \<and> now w' = now w"
  using assms
proof (induction ns arbitrary: w es fes)
  case Nil
  then show ?case by (simp add: AList.update_triv)
next
  case (Cons n ns)
  from Cons.prems obtain t where t: "map_of fes n = Some (File t)" by auto
  let ?w0 = "logger INFO ''Removing: %s'' w"
  let ?fes = "AList.delete n fes"
  let ?es = "AList.update d (Dir ?fes) es"
  let ?w1 = "?w0\<lparr>calls := calls ?w0 @ [Unlink (d, n)], fs := Some (Dir ?es)\<rparr>"
  have u: "unlink (d, n) ?w0 = (Inr (), ?w1)"
    using Cons.prems(1,2) t by (intro unlink_file) simp_all
  have p1: "fs ?w1 = Some (Dir ?es)" by simp
  have p2: "map_of ?es d = Some (Dir ?fes)" by (simp add: AList.update_conv')
  have p3: "distinct ns" using Cons.prems(3) by simp
  have p4: "\<forall>m\<in>set ns. \<exists>t. map_of ?fes m = Some (File t)"
  proof
    fix m assume m: "m \<in> set ns"
    with Cons.prems(3) have "m \<noteq> n" by auto
    with Cons.prems(4) m show "\<exists>t. map_of ?fes m = Some (File t)"
      by (simp add: AList.delete_conv')
  qed
  have f: "filter (\<lambda>e. fst e \<notin> set ns) ?fes = filter (\<lambda>e. fst e \<notin> set (n # ns)) fes"
    by (auto simp add: delete_as_filter intro: filter_cong)
  from Cons.IH [OF p1 p2 p3 p4] u f show ?case
    by (auto split: prod.splits)
qed

lemma rmdir_empty:
  assumes "fs w = Some (Dir es)" "map_of es d = Some (Dir [])"
  shows "rmdir d w =
           (Inr (), w\<lparr>calls := calls w @ [Rmdir d], fs := Some (Dir (AList.delete d es))\<rparr>)"
  using assms by (simp add: rmdir_def issue_def fs_rmdir_def)

lemma session_dir_files:
  assumes "session_dir (Dir fes)"
  shows "distinct (map fst fes)" "\<forall>n\<in>set (map fst fes). \<exists>t. map_of fes n = Some (File t)"
proof -
  from assms show d: "distinct (map fst fes)" by (simp add: session_dir_def)
  show "\<forall>n\<in>set (map fst fes). \<exists>t. map_of fes n = Some (File t)"
  proof
    fix n assume "n \<in> set (map fst fes)"
    then obtain x where x: "(n, x) \<in> set fes" by auto
    with d have m: "map_of fes n = Some x" by simp
    from assms x have "is_file x" by (auto simp add: session_dir_def list_all_iff)
    then obtain t where "x = File t" by (cases x) (simp_all add: is_file_def)
    with m show "\<exists>t. map_of fes n = Some (File t)" by simp
  qed
qed

text \<open>Removing one session that is due.\<close>

lemma remove_session:
  assumes "fs w = Some (Dir es)" "map_of es d = Some (Dir fes)" "session_dir (Dir fes)"
  shows "case unlink_all d (map fst fes) w of (r, w2) \<Rightarrow> r = Inr () \<and>
           (case rmdir d (logger INFO m w2) of (r', w3) \<Rightarrow>
              r' = Inr () \<and> fs w3 = Some (Dir (AList.delete d es)) \<and>
              calls w3 = calls w @ removal es d \<and> now w3 = now w)"
proof -
  note sd = session_dir_files [OF assms(3)]
  have e: "filter (\<lambda>e. fst e \<notin> set (map fst fes)) fes = []"
    by (auto simp add: filter_empty_conv)
  obtain r w2 where u: "unlink_all d (map fst fes) w = (r, w2)" by (cases "unlink_all d (map fst fes) w")
  with unlink_all_ok [OF assms(1,2) sd] e
  have r: "r = Inr ()" and f: "fs w2 = Some (Dir (AList.update d (Dir []) es))"
    and c: "calls w2 = calls w @ map (\<lambda>n. Unlink (d, n)) (map fst fes)" and n: "now w2 = now w"
    by simp_all
  let ?w = "logger INFO m w2"
  have "rmdir d ?w = (Inr (), ?w\<lparr>calls := calls ?w @ [Rmdir d],
           fs := Some (Dir (AList.delete d (AList.update d (Dir []) es)))\<rparr>)"
    using f by (intro rmdir_empty) (simp_all add: AList.update_conv')
  with u r c n assms(2) show ?thesis
    by (simp add: AList.delete_update_same removal_def names_in_def)
qed

lemma cleanup_loop_ok:
  assumes "fs w = Some (Dir es)" "distinct ds"
    and "\<forall>d\<in>set ds. (\<exists>dt. P d = Inr dt) \<and>
           (recent P (now w) d \<or> (\<exists>fes. map_of es d = Some (Dir fes) \<and> session_dir (Dir fes)))"
  shows "case cleanup_loop P ds w of (r, w') \<Rightarrow>
           r = Inr () \<and>
           fs w' = Some (Dir (filter (\<lambda>e. fst e \<notin> set ds \<or> recent P (now w) (fst e)) es)) \<and>
           calls w' = calls w @ concat (map (removal es) (filter (\<lambda>d. \<not> recent P (now w) d) ds)) \<and>
           now w' = now w"
  using assms
proof (induction ds arbitrary: w es)
  case Nil
  then show ?case by simp
next
  case (Cons d ds)
  from Cons.prems(3) obtain dt where dt: "P d = Inr dt" by auto
  have dist: "distinct ds" "d \<notin> set ds" using Cons.prems(2) by simp_all
  show ?case
  proof (cases "recent P (now w) d")
    case True
    let ?w = "logger DEBUG ''[%s] is too recent: (%.2f) days'' w"
    have step: "cleanup_loop P (d # ds) w = cleanup_loop P ds ?w"
      using True dt by (simp add: recent_def)
    have p3: "\<forall>d\<in>set ds. (\<exists>dt. P d = Inr dt) \<and>
           (recent P (now ?w) d \<or> (\<exists>fes. map_of es d = Some (Dir fes) \<and> session_dir (Dir fes)))"
      using Cons.prems(3) by simp
    have p1: "fs ?w = Some (Dir es)" using Cons.prems(1) by simp
    have f: "filter (\<lambda>e. fst e \<notin> set ds \<or> recent P (now w) (fst e)) es
           = filter (\<lambda>e. fst e \<notin> set (d # ds) \<or> recent P (now w) (fst e)) es"
      using True by (auto intro: filter_cong)
    from Cons.IH [OF p1 dist(1) p3] step f True show ?thesis
      by (auto split: prod.splits)
  next
    case False
    with Cons.prems(3) obtain fes where fes: "map_of es d = Some (Dir fes)" "session_dir (Dir fes)"
      by auto
    let ?w1 = "logger INFO ''Cleaning-up temporary storage for old session: %s'' w"
    have f1: "fs ?w1 = Some (Dir es)" using Cons.prems(1) by simp
    have l: "listdir_session (fs ?w1) d = Inr (map fst fes)"
      using f1 fes(1) by (simp add: listdir_session_def session_def)
    obtain r2 w2 where u: "unlink_all d (map fst fes) ?w1 = (r2, w2)"
      by (cases "unlink_all d (map fst fes) ?w1")
    obtain r3 w3 where r: "rmdir d (logger INFO ''Removing directory for session: %s'' w2) = (r3, w3)"
      by (cases "rmdir d (logger INFO ''Removing directory for session: %s'' w2)")
    from remove_session [OF f1 fes, of "''Removing directory for session: %s''"] u r
    have res: "r2 = Inr ()" "r3 = Inr ()" "fs w3 = Some (Dir (AList.delete d es))"
      "calls w3 = calls w @ removal es d" "now w3 = now w"
      by simp_all
    have step: "cleanup_loop P (d # ds) w = cleanup_loop P ds w3"
      using False dt l u r res(1,2) by (simp add: recent_def Let_def)
    have same: "map_of (AList.delete d es) d' = map_of es d'" if "d' \<in> set ds" for d'
      using that dist(2) by (auto simp add: AList.delete_conv')
    have p3: "\<forall>d'\<in>set ds. (\<exists>dt. P d' = Inr dt) \<and>
           (recent P (now w3) d' \<or>
            (\<exists>fes. map_of (AList.delete d es) d' = Some (Dir fes) \<and> session_dir (Dir fes)))"
      using Cons.prems(3) same res(5) by simp
    have f: "filter (\<lambda>e. fst e \<notin> set ds \<or> recent P (now w) (fst e)) (AList.delete d es)
           = filter (\<lambda>e. fst e \<notin> set (d # ds) \<or> recent P (now w) (fst e)) es"
      using False by (auto simp add: delete_as_filter intro: filter_cong)
    have c: "map (removal (AList.delete d es)) (filter (\<lambda>d. \<not> recent P (now w) d) ds)
           = map (removal es) (filter (\<lambda>d. \<not> recent P (now w) d) ds)"
      using same by (auto simp add: removal_def names_in_def)
    from Cons.IH [OF res(3) dist(1) p3] step f c res(4,5) False show ?thesis
      by (auto split: prod.splits)
  qed
qed

lemma map_of_filter_key:
  "map_of (filter (\<lambda>e. Q (fst e)) es) k = (if Q k then map_of es k else None)"
  by (induction es) auto


text \<open>
  Claim C3. On a well-formed store the sweep returns normally and leaves exactly the
  entries whose age, the clock minus the instant parsed from the name, is strictly
  below 28 days; they are left as they were, in place. For every other entry, taken in
  sorted order, it has issued one \<^verbatim>\<open>unlink\<close> for each file inside and then the \<^verbatim>\<open>rmdir\<close> of
  the directory, and nothing else.
\<close>

theorem sweep_removes_old_sessions:
  assumes "fs w = Some (Dir es)" and "store_ok strptime (now w) es"
  shows "case do_cleanup strptime w of (r, w') \<Rightarrow>
           r = Inr () \<and>
           fs w' = Some (Dir (filter (\<lambda>e. recent strptime (now w) (fst e)) es)) \<and>
           calls w' = calls w @ concat (map (removal es)
                        (filter (\<lambda>d. \<not> recent strptime (now w) d) (sort (map fst es)))) \<and>
           (\<forall>d. session (fs w') d =
                  (if recent strptime (now w) d then session (fs w) d else None))"
proof -
  let ?w = "logger DEBUG ''(%d) session-backup directories found.''
              (logger DEBUG ''Doing old-session cleanup.'' w)"
  have step: "do_cleanup strptime w = cleanup_loop strptime (sort (map fst es)) ?w"
    using assms(1) by (simp add: do_cleanup_def listdir_root_def Let_def)
  have p1: "fs ?w = Some (Dir es)" using assms(1) by simp
  have p2: "distinct (sort (map fst es))" using assms(2) by (simp add: store_ok_def)
  have p3: "\<forall>d\<in>set (sort (map fst es)). (\<exists>dt. strptime d = Inr dt) \<and>
           (recent strptime (now ?w) d \<or>
            (\<exists>fes. map_of es d = Some (Dir fes) \<and> session_dir (Dir fes)))"
  proof
    fix d assume "d \<in> set (sort (map fst es))"
    then obtain x where x: "(d, x) \<in> set es" by auto
    with assms(2) have m: "map_of es d = Some x" by (simp add: store_ok_def)
    from assms(2) x have ok: "(case strptime d of Inl _ \<Rightarrow> False | Inr _ \<Rightarrow> True)"
      "recent strptime (now w) d \<or> session_dir x"
      by (auto simp add: store_ok_def list_all_iff)
    from ok(1) have a: "\<exists>dt. strptime d = Inr dt" by (cases "strptime d") simp_all
    from ok(2) m have b: "recent strptime (now ?w) d \<or>
            (\<exists>fes. map_of es d = Some (Dir fes) \<and> session_dir (Dir fes))"
      by (cases x) (auto simp add: session_dir_def)
    from a b show "(\<exists>dt. strptime d = Inr dt) \<and>
           (recent strptime (now ?w) d \<or>
            (\<exists>fes. map_of es d = Some (Dir fes) \<and> session_dir (Dir fes)))" ..
  qed
  have f: "filter (\<lambda>e. fst e \<notin> set (sort (map fst es)) \<or> recent strptime (now w) (fst e)) es
         = filter (\<lambda>e. recent strptime (now w) (fst e)) es"
    by (auto intro: filter_cong)
  obtain r w' where res: "cleanup_loop strptime (sort (map fst es)) ?w = (r, w')"
    by (cases "cleanup_loop strptime (sort (map fst es)) ?w")
  with cleanup_loop_ok [OF p1 p2 p3] f
  have r: "r = Inr ()"
    and fs': "fs w' = Some (Dir (filter (\<lambda>e. recent strptime (now w) (fst e)) es))"
    and c: "calls w' = calls w @ concat (map (removal es)
                        (filter (\<lambda>d. \<not> recent strptime (now w) d) (sort (map fst es))))"
    by simp_all
  have s: "session (fs w') d = (if recent strptime (now w) d then session (fs w) d else None)" for d
    using fs' assms(1) by (simp add: session_def map_of_filter_key)
  from step res r fs' c s show ?thesis by simp
qed

theorem sweep_removes_old_sessions_witness:
  "fs ex_world_old = Some (Dir ex_store) \<and> store_ok strptime_canon (now ex_world_old) ex_store \<and>
   (case do_cleanup strptime_canon ex_world_old of (r, w') \<Rightarrow>
      r = Inr () \<and>
      fs w' = Some (Dir [(''20240229-120000'', Dir [(''Untitled Document 1'', File ''c'')]),
                         (''20240210-120000'', Dir [(''Untitled Document 1'', File ''b'')])]) \<and>
      calls w' = [Unlink (''20240111-120000'', ''Untitled Document 1''),
                  Unlink (''20240111-120000'', ''Untitled Document 2''),
                  Rmdir ''20240111-120000''])"
proof -
  have h1: "fs ex_world_old = Some (Dir ex_store)" by code_simp
  have h2: "store_ok strptime_canon (now ex_world_old) ex_store" by code_simp
  have c0: "calls ex_world_old = []" by code_simp
  have f: "filter (\<lambda>e. recent strptime_canon (now ex_world_old) (fst e)) ex_store =
             [(''20240229-120000'', Dir [(''Untitled Document 1'', File ''c'')]),
              (''20240210-120000'', Dir [(''Untitled Document 1'', File ''b'')])]"
    by code_simp
  have c: "concat (map (removal ex_store)
             (filter (\<lambda>d. \<not> recent strptime_canon (now ex_world_old) d)
                (sort (map fst ex_store)))) =
             [Unlink (''20240111-120000'', ''Untitled Document 1''),
              Unlink (''20240111-120000'', ''Untitled Document 2''),
              Rmdir ''20240111-120000'']"
    by code_simp
  show ?thesis
    using h1 h2 sweep_removes_old_sessions [OF h1 h2] c0 f c
    by (auto split: prod.splits)
qed

subsection \<open>Ticks and edits\<close>

text \<open>What a tick leaves alone, whatever its outcome.\<close>

lemma write_file_other:
  assumes "write_file p t w = (r, w')"
  shows "gedit_settings w' = gedit_settings w \<and> reads w' = reads w \<and> doc w' = doc w \<and>
         timers w' = timers w \<and> handlers w' = handlers w \<and> next_id w' = next_id w \<and>
         start_timestamp w' = start_timestamp w \<and> log w' = log w \<and>
         encoding w' = encoding w \<and> fault w' = fault w \<and>
         calls w' = calls w @ [OpenWrite p t]"
  using assms
  by (auto simp add: write_file_def Let_def split: sum.splits io_fault.splits if_splits)

lemma tick_other:
  assumes "store_unsaved_cb v w = (r, v', w')"
  shows "v' = v \<and> gedit_settings w' = gedit_settings w \<and> reads w' = reads w \<and>
         doc w' = doc w \<and> timers w' = timers w \<and> handlers w' = handlers w \<and>
         next_id w' = next_id w \<and> start_timestamp w' = start_timestamp w \<and>
         encoding w' = encoding w \<and> fault w' = fault w \<and> error_log w' = error_log w"
proof (cases "untouched (doc w)")
  case True
  with assms show ?thesis by (auto simp add: store_unsaved_cb_def)
next
  case False
  let ?w1 = "vlog DEBUG ''Checking state of unsaved document.'' w"
  obtain r2 w2 where e: "ensure_path ?w1 = (r2, w2)" by (cases "ensure_path ?w1")
  then have f2: "gedit_settings w2 = gedit_settings w \<and> reads w2 = reads w \<and>
         doc w2 = doc w \<and> timers w2 = timers w \<and> handlers w2 = handlers w \<and>
         next_id w2 = next_id w \<and> start_timestamp w2 = start_timestamp w \<and>
         encoding w2 = encoding w \<and> fault w2 = fault w \<and> error_log w2 = error_log w"
    by (auto simp add: ensure_path_def makedirs_def issue_def split: if_splits sum.splits)
  show ?thesis
  proof (cases r2)
    case (Inl x)
    with assms False e f2 show ?thesis by (auto simp add: store_unsaved_cb_def)
  next
    case (Inr y)
    show ?thesis
    proof (cases "file_path v")
      case None
      with assms False e f2 Inr show ?thesis by (auto simp add: store_unsaved_cb_def)
    next
      case (Some p)
      let ?w2 = "vlog INFO ''Storing unnamed file as (%d) bytes to: %s'' w2"
      obtain r3 w3 where f: "write_file p (full_text (doc w2)) ?w2 = (r3, w3)"
        by (cases "write_file p (full_text (doc w2)) ?w2")
      from write_file_other [OF f] f2
      have f3: "gedit_settings w3 = gedit_settings w \<and> reads w3 = reads w \<and>
         doc w3 = doc w \<and> timers w3 = timers w \<and> handlers w3 = handlers w \<and>
         next_id w3 = next_id w \<and> start_timestamp w3 = start_timestamp w \<and>
         encoding w3 = encoding w \<and> fault w3 = fault w \<and> error_log w3 = error_log w"
        by (simp add: error_log_def)
      from assms False e Inr Some f have "v' = v \<and> w' = w3"
        by (cases r3) (auto simp add: store_unsaved_cb_def Let_def)
      with f3 show ?thesis by simp
    qed
  qed
qed

















subsection \<open>The saved signal\<close>

lemma watch_stop_watching:
  assumes "watching v w i h p"
  shows "case watch_stop v w of (r, v', w') \<Rightarrow>
           r = Inr () \<and> v' = v\<lparr>watch_state := False, save_timer_id := None, sig_saved := None\<rparr> \<and>
           fs w' = fs w \<and> calls w' = calls w \<and>
           timers w' = filter (\<lambda>t. fst t \<noteq> i) (timers w) \<and>
           handlers w' = filter (\<lambda>x. x \<noteq> h) (handlers w) \<and>
           start_timestamp w' = start_timestamp w \<and> error_log w' = error_log w"
  using assms
  by (simp add: watching_def watch_stop_def is_watching_def clear_schedule_def
      unhook_signals_def Let_def)

lemma entry_file:
  assumes "entry f p = Some x"
  obtains es fes where "f = Some (Dir es)" "map_of es (fst p) = Some (Dir fes)"
    "map_of fes (snd p) = Some x"
  using assms
  by (auto simp add: entry_def session_def split: option.splits node.splits)

lemma unlink_fails:
  assumes "\<forall>t. entry (fs w) p \<noteq> Some (File t)"
  shows "unlink p w = (Inl OSError, w\<lparr>calls := calls w @ [Unlink p]\<rparr>)"
  using assms
  by (auto simp add: unlink_def issue_def fs_unlink_def entry_def session_def
      split: option.splits node.splits)

lemma cleanup_temp_file_absent:
  assumes "file_path v = Some p" "\<forall>t. entry (fs w) p \<noteq> Some (File t)"
  shows "case cleanup_temp_file v w of (r, v', w') \<Rightarrow>
           r = Inl OSError \<and> v' = v \<and> fs w' = fs w \<and> calls w' = calls w @ [Unlink p] \<and>
           timers w' = timers w \<and> handlers w' = handlers w \<and> error_log w' = error_log w"
proof -
  let ?w = "vlog INFO ''Cleaning-up temporary file: %s'' w"
  have "\<forall>t. entry (fs ?w) p \<noteq> Some (File t)" using assms(2) by simp
  from unlink_fails [OF this] assms(1) show ?thesis
    by (simp add: cleanup_temp_file_def)
qed

lemma cleanup_temp_file_present:
  assumes "file_path v = Some p" "fst p = start_timestamp w"
    and "fs w = Some (Dir es)" "map_of es (fst p) = Some (Dir fes)"
    "map_of fes (snd p) = Some (File t)"
  shows "case cleanup_temp_file v w of (r, v', w') \<Rightarrow>
           r = Inr () \<and> v' = v \<and>
           fs w' = Some (Dir (if AList.delete (snd p) fes = [] then AList.delete (fst p) es
                              else AList.update (fst p) (Dir (AList.delete (snd p) fes)) es)) \<and>
           calls w' = calls w @ Unlink p #
                        (if AList.delete (snd p) fes = [] then [Rmdir (fst p)] else []) \<and>
           timers w' = timers w \<and> handlers w' = handlers w \<and> error_log w' = error_log w"
proof -
  let ?w0 = "vlog INFO ''Cleaning-up temporary file: %s'' w"
  let ?fes = "AList.delete (snd p) fes"
  let ?es = "AList.update (fst p) (Dir ?fes) es"
  let ?w1 = "?w0\<lparr>calls := calls ?w0 @ [Unlink p], fs := Some (Dir ?es)\<rparr>"
  have u: "unlink p ?w0 = (Inr (), ?w1)"
    using assms(3-5) by (simp add: unlink_def issue_def fs_unlink_def)
  have l: "listdir_session (fs ?w1) (start_timestamp ?w1) = Inr (map fst ?fes)"
    using assms(2) by (simp add: listdir_session_def session_def AList.update_conv')
  show ?thesis
  proof (cases "?fes = []")
    case True
    let ?w2 = "vlog INFO ''No more temporary files exist for this session. Removing storage path: %s'' ?w1"
    have "rmdir (fst p) ?w2 = (Inr (), ?w2\<lparr>calls := calls ?w2 @ [Rmdir (fst p)],
             fs := Some (Dir (AList.delete (fst p) ?es))\<rparr>)"
      using True by (simp add: rmdir_def issue_def fs_rmdir_def AList.update_conv')
    with u l True assms(1,2) show ?thesis
      by (simp add: cleanup_temp_file_def Let_def AList.delete_update_same)
  next
    case False
    with u l assms(1,2) show ?thesis
      by (simp add: cleanup_temp_file_def Let_def)
  qed
qed


lemma on_saved_absent:
  assumes "watching v w i h p" "\<forall>t. entry (fs w) p \<noteq> Some (File t)"
  shows "case on_saved v w of (r, v', w') \<Rightarrow>
           r = Inl OSError \<and> \<not> watch_state v' \<and> save_timer_id v' = None \<and>
           sig_saved v' = None \<and> i \<notin> fst ` set (timers w') \<and> h \<notin> set (handlers w') \<and>
           fs w' = fs w \<and> calls w' = calls w @ [Unlink p] \<and> error_log w' = error_log w"
proof -
  obtain r1 v1 w1 where ws: "watch_stop v w = (r1, v1, w1)" by (cases "watch_stop v w")
  with watch_stop_watching [OF assms(1)]
  have s: "r1 = Inr ()" "v1 = v\<lparr>watch_state := False, save_timer_id := None, sig_saved := None\<rparr>"
    "fs w1 = fs w" "calls w1 = calls w" "timers w1 = filter (\<lambda>t. fst t \<noteq> i) (timers w)"
    "handlers w1 = filter (\<lambda>x. x \<noteq> h) (handlers w)" "error_log w1 = error_log w"
    by simp_all
  from assms(1) s(2) have fp: "file_path v1 = Some p" by (simp add: watching_def)
  from assms(2) s(3) have ab: "\<forall>t. entry (fs w1) p \<noteq> Some (File t)" by simp
  obtain r2 v2 w2 where c: "cleanup_temp_file v1 w1 = (r2, v2, w2)"
    by (cases "cleanup_temp_file v1 w1")
  with cleanup_temp_file_absent [OF fp ab]
  have c2: "r2 = Inl OSError" "v2 = v1" "fs w2 = fs w1" "calls w2 = calls w1 @ [Unlink p]"
    "timers w2 = timers w1" "handlers w2 = handlers w1" "error_log w2 = error_log w1"
    by simp_all
  have "on_saved v w = (r2, v2, w2)"
    using assms(1) ws s(1) c by (simp add: on_saved_def is_watching_def watching_def)
  with s c2 show ?thesis by auto
qed

lemma on_saved_present:
  assumes "watching v w i h p" "entry (fs w) p = Some (File t)"
  shows "case on_saved v w of (r, v', w') \<Rightarrow>
           r = Inr () \<and> \<not> watch_state v' \<and> save_timer_id v' = None \<and>
           sig_saved v' = None \<and> i \<notin> fst ` set (timers w') \<and> h \<notin> set (handlers w') \<and>
           entry (fs w') p = None \<and> error_log w' = error_log w \<and>
           (\<exists>fes. session (fs w) (fst p) = Some (Dir fes) \<and>
                  session (fs w') (fst p) =
                    (if AList.delete (snd p) fes = [] then None
                     else Some (Dir (AList.delete (snd p) fes))))"
proof -
  from assms(2) obtain es fes where f: "fs w = Some (Dir es)"
    "map_of es (fst p) = Some (Dir fes)" "map_of fes (snd p) = Some (File t)"
    by (rule entry_file)
  obtain r1 v1 w1 where ws: "watch_stop v w = (r1, v1, w1)" by (cases "watch_stop v w")
  with watch_stop_watching [OF assms(1)]
  have s: "r1 = Inr ()" "v1 = v\<lparr>watch_state := False, save_timer_id := None, sig_saved := None\<rparr>"
    "fs w1 = fs w" "calls w1 = calls w" "timers w1 = filter (\<lambda>t. fst t \<noteq> i) (timers w)"
    "handlers w1 = filter (\<lambda>x. x \<noteq> h) (handlers w)" "error_log w1 = error_log w"
    "start_timestamp w1 = start_timestamp w"
    by simp_all
  from assms(1) s(2,8) have fp: "file_path v1 = Some p" "fst p = start_timestamp w1"
    by (simp_all add: watching_def)
  from f(1) s(3) have f1: "fs w1 = Some (Dir es)" by simp
  obtain r2 v2 w2 where c: "cleanup_temp_file v1 w1 = (r2, v2, w2)"
    by (cases "cleanup_temp_file v1 w1")
  with cleanup_temp_file_present [OF fp f1 f(2,3)]
  have c2: "r2 = Inr ()" "v2 = v1"
    "fs w2 = Some (Dir (if AList.delete (snd p) fes = [] then AList.delete (fst p) es
                        else AList.update (fst p) (Dir (AList.delete (snd p) fes)) es))"
    "timers w2 = timers w1" "handlers w2 = handlers w1" "error_log w2 = error_log w1"
    by simp_all
  have o: "on_saved v w = (r2, v2, w2)"
    using assms(1) ws s(1) c by (simp add: on_saved_def is_watching_def watching_def)
  have e: "entry (fs w2) p = None"
    using c2(3) by (simp add: entry_def session_def AList.delete_conv' AList.update_conv')
  have d: "session (fs w2) (fst p) =
             (if AList.delete (snd p) fes = [] then None
              else Some (Dir (AList.delete (snd p) fes)))"
    using c2(3) by (simp add: session_def AList.delete_conv' AList.update_conv')
  have d0: "session (fs w) (fst p) = Some (Dir fes)" using f(1,2) by (simp add: session_def)
  from o s c2 e d d0 show ?thesis by auto
qed


lemma on_saved_present_example:
  "case on_saved ex_view2 ex_world2 of (r, v', w') \<Rightarrow>
     r = Inr () \<and> \<not> watch_state v' \<and> entry (fs w') ex_path = None \<and>
     session (fs w') ''20240301-120000'' = None"
proof -
  have s: "session (fs ex_world2) (fst ex_path) =
             Some (Dir [(''Untitled Document 1'', File ''hello'')])"
    by code_simp
  have d: "AList.delete (snd ex_path) [(''Untitled Document 1'', File ''hello'')] = []"
    by code_simp
  have p: "fst ex_path = ''20240301-120000''" by code_simp
  from on_saved_present [OF ex2_watching ex2_world(1)] s d p show ?thesis
    by (auto split: prod.splits)
qed

lemma on_saved_shared_example:
  "fst (on_saved ex_view1 ex_world_shared) = Inr () \<and>
   session (fs (snd (snd (on_saved ex_view1 ex_world_shared)))) ''20240301-120000'' =
     Some (Dir [(''Untitled Document 2'', File ''other'')])"
  by code_simp

text \<open>
  Claim C2 says that on the \<^verbatim>\<open>saved\<close> signal a watching watcher cancels its timer,
  disconnects the handler, deletes the temp file if it is present and then removes the
  session directory if that is empty. With the temp file present the handler does so
  (\<open>on_saved_present\<close>). With no temp file it does not: \<^verbatim>\<open>unlink\<close> is called all the
  same and raises, and the directory is never looked at. Here the watcher of the
  example receives the signal before any tick has written the file, once with no store
  at all and once with the session directory present and empty: both times the handler
  ends with \<open>OSError\<close>, and the empty session directory is still there afterwards.
\<close>

theorem saved_without_temp_file:
  "fst (on_saved ex_view1 ex_world1) = Inl OSError \<and>
   fst (on_saved ex_view1 ex_world_emptied) = Inl OSError \<and>
   listdir_session (fs (snd (snd (on_saved ex_view1 ex_world_emptied)))) ''20240301-120000''
     = Inr []"
  by code_simp

subsection \<open>Failing filesystem calls\<close>





subsection \<open>The disabled feature\<close>

lemma issue_frame:
  "case issue c r w of (x, w') \<Rightarrow>
     gedit_settings w' = gedit_settings w \<and> timers w' = timers w \<and> handlers w' = handlers w \<and>
     now w' = now w \<and> calls w' = calls w @ [c]"
  by (simp add: issue_def split: sum.splits)

lemma unlink_all_frame:
  "case unlink_all s ns w of (x, w') \<Rightarrow>
     gedit_settings w' = gedit_settings w \<and> timers w' = timers w \<and> handlers w' = handlers w \<and>
     now w' = now w \<and> filter is_write (calls w') = filter is_write (calls w)"
proof (induction ns arbitrary: w)
  case Nil
  show ?case by simp
next
  case (Cons n ns)
  let ?w = "logger INFO ''Removing: %s'' w"
  obtain x w1 where u: "unlink (s, n) ?w = (x, w1)" by (cases "unlink (s, n) ?w")
  with issue_frame [where c = "Unlink (s, n)" and r = "fs_unlink (fs ?w) (s, n)" and w = ?w]
  have f: "gedit_settings w1 = gedit_settings w" "timers w1 = timers w"
    "handlers w1 = handlers w" "now w1 = now w" "calls w1 = calls w @ [Unlink (s, n)]"
    by (simp_all add: unlink_def)
  show ?case
  proof (cases x)
    case (Inl e)
    with u f show ?thesis by (simp add: is_write_def)
  next
    case (Inr y)
    with u f Cons.IH [where w = w1] show ?thesis by (simp add: is_write_def split: prod.splits)
  qed
qed

lemma cleanup_loop_frame:
  "case cleanup_loop P ds w of (x, w') \<Rightarrow>
     gedit_settings w' = gedit_settings w \<and> timers w' = timers w \<and> handlers w' = handlers w \<and>
     now w' = now w \<and> filter is_write (calls w') = filter is_write (calls w)"
proof (induction ds arbitrary: w)
  case Nil
  show ?case by simp
next
  case (Cons d ds)
  show ?case
  proof (cases "P d")
    case (Inl e)
    then show ?thesis by simp
  next
    case (Inr dt)
    show ?thesis
    proof (cases "now w - dt < MAX_STORED_AGE_S * 1000000")
      case True
      with Inr Cons.IH [where w = "logger DEBUG ''[%s] is too recent: (%.2f) days'' w"]
      show ?thesis by simp
    next
      case False
      let ?w1 = "logger INFO ''Cleaning-up temporary storage for old session: %s'' w"
      show ?thesis
      proof (cases "listdir_session (fs ?w1) d")
        case (Inl e)
        with Inr False show ?thesis by (simp add: Let_def)
      next
        case names: (Inr names)
        obtain x2 w2 where u: "unlink_all d names ?w1 = (x2, w2)"
          by (cases "unlink_all d names ?w1")
        with unlink_all_frame [where s = d and ns = names and w = ?w1]
        have f2: "gedit_settings w2 = gedit_settings w" "timers w2 = timers w"
          "handlers w2 = handlers w" "now w2 = now w"
          "filter is_write (calls w2) = filter is_write (calls w)"
          by simp_all
        let ?w2 = "logger INFO ''Removing directory for session: %s'' w2"
        obtain x3 w3 where r: "rmdir d ?w2 = (x3, w3)" by (cases "rmdir d ?w2")
        with issue_frame [where c = "Rmdir d" and r = "fs_rmdir (fs ?w2) d" and w = ?w2] f2
        have f3: "gedit_settings w3 = gedit_settings w" "timers w3 = timers w"
          "handlers w3 = handlers w" "now w3 = now w"
          "filter is_write (calls w3) = filter is_write (calls w)"
          by (simp_all add: rmdir_def is_write_def)
        show ?thesis
        proof (cases x2)
          case (Inl e)
          with Inr False names u f2 show ?thesis by (simp add: Let_def)
        next
          case x2r: (Inr y)
          show ?thesis
          proof (cases x3)
            case (Inl e)
            with Inr False names u x2r r f3 show ?thesis by (simp add: Let_def)
          next
            case (Inr z)
            with \<open>P d = Inr dt\<close> False names u x2r r f3 Cons.IH [where w = w3] show ?thesis
              by (simp add: Let_def split: prod.splits)
          qed
        qed
      qed
    qed
  qed
qed

lemma do_cleanup_frame:
  "case do_cleanup P w of (x, w') \<Rightarrow>
     gedit_settings w' = gedit_settings w \<and> timers w' = timers w \<and> handlers w' = handlers w \<and>
     filter is_write (calls w') = filter is_write (calls w)"
proof (cases "listdir_root (fs w)")
  case (Inl e)
  then show ?thesis by (simp add: do_cleanup_def Let_def)
next
  case (Inr names)
  with cleanup_loop_frame [where P = P and ds = "sort names" and
      w = "logger DEBUG ''(%d) session-backup directories found.''
         (logger DEBUG ''Doing old-session cleanup.'' w)"]
  show ?thesis by (simp add: do_cleanup_def Let_def split: prod.splits)
qed

lemma disabled_step:
  assumes "disabled v w"
  shows "case host_step e v w of (r, v', w') \<Rightarrow>
           r = Inr () \<and> disabled v' w' \<and> fs w' = fs w \<and> calls w' = calls w"
  using assms
  by (cases e)
    (simp_all add: disabled_def do_activate_def do_deactivate_def is_enabled_def)

lemma disabled_run:
  assumes "disabled v w"
  shows "case run evs v w of (r, v', w') \<Rightarrow>
           r = Inr () \<and> disabled v' w' \<and> fs w' = fs w \<and> calls w' = calls w"
  using assms
proof (induction evs arbitrary: v w)
  case Nil
  then show ?case by simp
next
  case (Cons e evs)
  obtain r1 v1 w1 where s: "host_step e v w = (r1, v1, w1)" by (cases "host_step e v w")
  with disabled_step [OF Cons.prems, where e = e]
  have s1: "r1 = Inr ()" "disabled v1 w1" "fs w1 = fs w" "calls w1 = calls w" by simp_all
  from Cons.IH [OF s1(2)] s s1 show ?case by (simp split: prod.splits)
qed

lemma activate_disabled_state:
  assumes "\<not> auto_save (gedit_settings w)" "timers w = []" "handlers w = []"
  shows "case do_activate init w of (r, v1, w1) \<Rightarrow>
           r = Inr () \<and> disabled v1 w1 \<and> fs w1 = fs w \<and> calls w1 = calls w"
  using assms by (simp add: do_activate_def is_enabled_def init_def Let_def disabled_def)


text \<open>
  Claim C7. Let the toggle be off when the application starts and the first watcher is
  activated, with no timer and no handler registered yet. The sweep at application start
  issues no \<^verbatim>\<open>makedirs\<close> and no write (it may still delete old sessions). After it,
  whatever events follow the activation (ticks, signals, edits, changes of the settings,
  further activations and deactivations), every one returns normally, the watcher is
  never watching, nothing is registered, and neither the tree nor the list of calls
  issued changes: the watcher makes no filesystem call at all.
\<close>

theorem disabled_never_writes:
  assumes "\<not> auto_save (gedit_settings w)" "timers w = []" "handlers w = []"
  shows "case app_do_activate strptime w of (r0, w0) \<Rightarrow>
           filter is_write (calls w0) = filter is_write (calls w) \<and>
           (case run (Activate # evs) init w0 of (r, v', w') \<Rightarrow>
              r = Inr () \<and> \<not> watch_state v' \<and> timers w' = [] \<and> handlers w' = [] \<and>
              fs w' = fs w0 \<and> calls w' = calls w0)"
proof -
  obtain r0 w0 where a: "app_do_activate strptime w = (r0, w0)"
    by (cases "app_do_activate strptime w")
  with do_cleanup_frame [where P = strptime and w = w] assms
  have f: "\<not> auto_save (gedit_settings w0)" "timers w0 = []" "handlers w0 = []"
    "filter is_write (calls w0) = filter is_write (calls w)"
    by (simp_all add: app_do_activate_def)
  obtain r1 v1 w1 where b: "do_activate init w0 = (r1, v1, w1)" by (cases "do_activate init w0")
  with activate_disabled_state [OF f(1-3)]
  have g: "r1 = Inr ()" "disabled v1 w1" "fs w1 = fs w0" "calls w1 = calls w0" by simp_all
  obtain r v' w' where c: "run evs v1 w1 = (r, v', w')" by (cases "run evs v1 w1")
  with disabled_run [OF g(2), where evs = evs]
  have h: "r = Inr ()" "disabled v' w'" "fs w' = fs w1" "calls w' = calls w1" by simp_all
  have "run (Activate # evs) init w0 = (r, v', w')" using b g(1) c by simp
  with a f(4) g h show ?thesis by (simp add: disabled_def)
qed

theorem disabled_never_writes_witness:
  "\<not> auto_save (gedit_settings ex_world_off_old) \<and> timers ex_world_off_old = [] \<and>
   handlers ex_world_off_old = [] \<and>
   (case app_do_activate strptime_canon ex_world_off_old of (r0, w0) \<Rightarrow>
      filter is_write (calls w0) = [] \<and>
      (case run (Activate # ex_events_off) init w0 of (r, v', w') \<Rightarrow>
         r = Inr () \<and> \<not> watch_state v' \<and> fs w' = fs w0 \<and> calls w' = calls w0))"
proof -
  have h: "\<not> auto_save (gedit_settings ex_world_off_old)" "timers ex_world_off_old = []"
    "handlers ex_world_off_old = []"
    by code_simp+
  have c: "calls ex_world_off_old = []" by code_simp
  show ?thesis
    using h c disabled_never_writes [OF h, where strptime = strptime_canon and evs = ex_events_off]
    by (auto split: prod.splits)
qed

subsection \<open>The cached settings\<close>

lemma write_file_settings:
  "write_file p t (w\<lparr>gedit_settings := g\<rparr>) =
     (case write_file p t w of (r, w') \<Rightarrow> (r, w'\<lparr>gedit_settings := g\<rparr>))"
  by (simp add: write_file_def Let_def split: sum.splits io_fault.splits)

lemma vlog_settings:
  "vlog l m (w\<lparr>gedit_settings := g\<rparr>) = (vlog l m w)\<lparr>gedit_settings := g\<rparr>"
  by (simp add: vlog_def logger_def get_name_def)

lemma ensure_path_settings:
  "ensure_path (w\<lparr>gedit_settings := g\<rparr>) =
     (case ensure_path w of (r, w') \<Rightarrow> (r, w'\<lparr>gedit_settings := g\<rparr>))"
  by (simp add: ensure_path_def makedirs_def issue_def vlog_def logger_def get_name_def
      split: sum.splits)

lemma tick_settings:
  "store_unsaved_cb v (w\<lparr>gedit_settings := g\<rparr>) =
     (case store_unsaved_cb v w of (r, v', w') \<Rightarrow> (r, v', w'\<lparr>gedit_settings := g\<rparr>))"
proof (cases "untouched (doc w)")
  case True
  then show ?thesis by (simp add: store_unsaved_cb_def vlog_settings)
next
  case False
  let ?w1 = "vlog DEBUG ''Checking state of unsaved document.'' w"
  obtain r2 w2 where e: "ensure_path ?w1 = (r2, w2)" by (cases "ensure_path ?w1")
  then have e': "ensure_path (?w1\<lparr>gedit_settings := g\<rparr>) = (r2, w2\<lparr>gedit_settings := g\<rparr>)"
    by (simp add: ensure_path_settings)
  show ?thesis
  proof (cases r2)
    case (Inl x)
    with False e e' show ?thesis by (simp add: store_unsaved_cb_def vlog_settings)
  next
    case (Inr y)
    show ?thesis
    proof (cases "file_path v")
      case None
      with False e e' Inr show ?thesis by (simp add: store_unsaved_cb_def vlog_settings)
    next
      case (Some p)
      let ?w2 = "vlog INFO ''Storing unnamed file as (%d) bytes to: %s'' w2"
      obtain r3 w3 where f: "write_file p (full_text (doc w2)) ?w2 = (r3, w3)"
        by (cases "write_file p (full_text (doc w2)) ?w2")
      then have f': "write_file p (full_text (doc w2)) (?w2\<lparr>gedit_settings := g\<rparr>) =
          (r3, w3\<lparr>gedit_settings := g\<rparr>)"
        by (simp add: write_file_settings)
      from False e e' Inr Some f f' show ?thesis
        by (cases r3) (simp_all add: store_unsaved_cb_def vlog_settings Let_def)
    qed
  qed
qed

lemmas op_defs = unlink_def rmdir_def issue_def on_saved_def watch_stop_def is_watching_def
  clear_schedule_def unhook_signals_def cleanup_temp_file_def watch_start_def hook_signals_def
  set_schedule_def do_activate_def do_deactivate_def is_enabled_def

lemma step_reads:
  "case host_step e v w of (r, v', w') \<Rightarrow>
     (\<forall>b. enabled v = Some b \<longrightarrow>
        reads w' = reads w \<and> enabled v' = enabled v \<and> run_interval_s v' = run_interval_s v) \<and>
     (enabled v = None \<longrightarrow>
        enabled v' = None \<and> reads w' = reads w \<or>
        enabled v' = Some (auto_save (gedit_settings w)) \<and>
        run_interval_s v' = Some (auto_save_interval (gedit_settings w)) \<and>
        reads w' = reads w @ [''auto-save'', ''auto-save-interval''])"
proof (cases e)
  case (TimerFires j)
  obtain r1 v1 w1 where cb: "store_unsaved_cb v w = (r1, v1, w1)"
    by (cases "store_unsaved_cb v w")
  from tick_other [OF cb] have "v1 = v" "reads w1 = reads w" by simp_all
  with TimerFires cb show ?thesis
    by (auto split: sum.splits bool.splits)
qed (auto simp add: op_defs Let_def
      split: option.splits sum.splits prod.splits if_splits bool.splits)

lemma step_settings_independent:
  assumes "enabled v = Some b" "\<not> is_settings_change e"
  shows "host_step e v (w\<lparr>gedit_settings := g\<rparr>) =
           (case host_step e v w of (r, v', w') \<Rightarrow> (r, v', w'\<lparr>gedit_settings := g\<rparr>))"
proof (cases e)
  case (TimerFires j)
  then show ?thesis
    by (simp add: tick_settings split: prod.splits sum.splits bool.splits)
qed (use assms in \<open>auto simp add: op_defs Let_def vlog_def logger_def get_name_def
      is_settings_change_def
      split: option.splits sum.splits prod.splits if_splits bool.splits\<close>)

lemma agree_update: "agree w (w\<lparr>gedit_settings := g\<rparr>)"
  by (simp add: agree_def)

lemma agree_change: "agree w1 w2 \<Longrightarrow> agree (w1\<lparr>gedit_settings := g\<rparr>) w2"
  by (simp add: agree_def)

lemma agree_eq: "agree w1 w2 \<Longrightarrow> w2 = w1\<lparr>gedit_settings := gedit_settings w2\<rparr>"
  by (simp add: agree_def)

lemma run_cached:
  assumes "enabled v = Some b"
  shows "case run evs v w of (r, v', w') \<Rightarrow>
           reads w' = reads w \<and> enabled v' = Some b \<and> run_interval_s v' = run_interval_s v"
  using assms
proof (induction evs arbitrary: v w)
  case Nil
  then show ?case by simp
next
  case (Cons e evs)
  obtain r1 v1 w1 where s: "host_step e v w = (r1, v1, w1)" by (cases "host_step e v w")
  with step_reads [where e = e and v = v and w = w] Cons.prems
  have s1: "reads w1 = reads w" "enabled v1 = Some b" "run_interval_s v1 = run_interval_s v"
    by simp_all
  show ?case
  proof (cases r1)
    case (Inl x)
    with s s1 show ?thesis by simp
  next
    case (Inr y)
    with s s1 Cons.IH [OF s1(2), where w = w1] show ?thesis by (simp split: prod.splits)
  qed
qed

lemma run_first_read:
  assumes "enabled v = None"
  shows "case run evs v w of (r, v', w') \<Rightarrow>
           reads w' = reads w \<or> reads w' = reads w @ [''auto-save'', ''auto-save-interval'']"
  using assms
proof (induction evs arbitrary: v w)
  case Nil
  then show ?case by simp
next
  case (Cons e evs)
  obtain r1 v1 w1 where s: "host_step e v w = (r1, v1, w1)" by (cases "host_step e v w")
  with step_reads [where e = e and v = v and w = w] Cons.prems
  have s1: "enabled v1 = None \<and> reads w1 = reads w \<or>
        (\<exists>b. enabled v1 = Some b) \<and> reads w1 = reads w @ [''auto-save'', ''auto-save-interval'']"
    by auto
  show ?case
  proof (cases r1)
    case (Inl x)
    with s s1 show ?thesis by auto
  next
    case (Inr y)
    from s1 show ?thesis
    proof
      assume a: "enabled v1 = None \<and> reads w1 = reads w"
      with Cons.IH [where v = v1 and w = w1] s Inr show ?thesis
        by (simp split: prod.splits)
    next
      assume a: "(\<exists>b. enabled v1 = Some b) \<and>
                 reads w1 = reads w @ [''auto-save'', ''auto-save-interval'']"
      then obtain b where b: "enabled v1 = Some b" by auto
      from run_cached [OF b, where evs = evs and w = w1] a s Inr show ?thesis
        by (simp split: prod.splits)
    qed
  qed
qed

lemma run_settings_independent:
  assumes "enabled v = Some b" "agree w1 w2"
  shows "case run evs v w1 of (r1, v1, w1') \<Rightarrow>
           (case run (strip_settings evs) v w2 of (r2, v2, w2') \<Rightarrow>
              r1 = r2 \<and> v1 = v2 \<and> agree w1' w2')"
  using assms
proof (induction evs arbitrary: v w1 w2)
  case Nil
  then show ?case by (simp add: strip_settings_def)
next
  case (Cons e evs)
  show ?case
  proof (cases "is_settings_change e")
    case True
    then obtain g where e: "e = SettingsChanged g" by (cases e) (simp_all add: is_settings_change_def)
    have a: "agree (w1\<lparr>gedit_settings := g\<rparr>) w2" using Cons.prems(2) by (rule agree_change)
    from Cons.IH [OF Cons.prems(1) a] e show ?thesis
      by (simp add: strip_settings_def is_settings_change_def)
  next
    case False
    obtain r v' w' where s: "host_step e v w1 = (r, v', w')" by (cases "host_step e v w1")
    from agree_eq [OF Cons.prems(2)] obtain g where w2: "w2 = w1\<lparr>gedit_settings := g\<rparr>" ..
    have s2: "host_step e v w2 = (r, v', w'\<lparr>gedit_settings := g\<rparr>)"
      using step_settings_independent [OF Cons.prems(1) False, where w = w1 and g = g] s w2
      by simp
    from step_reads [where e = e and v = v and w = w1] s Cons.prems(1)
    have en: "enabled v' = Some b" by simp
    have st: "strip_settings (e # evs) = e # strip_settings evs"
      using False by (simp add: strip_settings_def)
    show ?thesis
    proof (cases r)
      case (Inl x)
      with s s2 st show ?thesis by (simp add: agree_update)
    next
      case (Inr y)
      from Cons.IH [OF en agree_update, where ?w1.0 = w' and g1 = g] s s2 st Inr
      show ?thesis by simp
    qed
  qed
qed


text \<open>
  Claim C10. Over any run of events on a new watcher, the settings are read not at all
  or exactly once, both keys together. Once the toggle is cached, a run never reads the
  settings again and keeps the cached toggle and interval; and it does not depend on
  the settings: started from worlds that differ only in the settings, the run with
  changes of the settings in between and the run without them end with the same
  outcome, the same attributes and worlds that differ only in the settings.
\<close>

theorem settings_read_once:
  "(case run evs init w of (r, v', w') \<Rightarrow>
      reads w' = reads w \<or> reads w' = reads w @ [''auto-save'', ''auto-save-interval'']) \<and>
   (enabled v \<noteq> None \<and> agree w1 w2 \<longrightarrow>
      (case run evs v w1 of (r1, v1, w1') \<Rightarrow>
         (case run (strip_settings evs) v w2 of (r2, v2, w2') \<Rightarrow>
            r1 = r2 \<and> v1 = v2 \<and> enabled v1 = enabled v \<and>
            run_interval_s v1 = run_interval_s v \<and> reads w1' = reads w1 \<and> agree w1' w2')))"
proof
  have "enabled init = None" by (simp add: init_def)
  from run_first_read [OF this]
  show "case run evs init w of (r, v', w') \<Rightarrow>
      reads w' = reads w \<or> reads w' = reads w @ [''auto-save'', ''auto-save-interval'']" .
next
  show "enabled v \<noteq> None \<and> agree w1 w2 \<longrightarrow>
      (case run evs v w1 of (r1, v1, w1') \<Rightarrow>
         (case run (strip_settings evs) v w2 of (r2, v2, w2') \<Rightarrow>
            r1 = r2 \<and> v1 = v2 \<and> enabled v1 = enabled v \<and>
            run_interval_s v1 = run_interval_s v \<and> reads w1' = reads w1 \<and> agree w1' w2'))"
  proof
    assume a: "enabled v \<noteq> None \<and> agree w1 w2"
    then obtain b where b: "enabled v = Some b" by auto
    from a have ag: "agree w1 w2" ..
    from run_settings_independent [OF b ag, where evs = evs]
      run_cached [OF b, where evs = evs and w = w1] b
    show "case run evs v w1 of (r1, v1, w1') \<Rightarrow>
         (case run (strip_settings evs) v w2 of (r2, v2, w2') \<Rightarrow>
            r1 = r2 \<and> v1 = v2 \<and> enabled v1 = enabled v \<and>
            run_interval_s v1 = run_interval_s v \<and> reads w1' = reads w1 \<and> agree w1' w2')"
      by (auto split: prod.splits)
  qed
qed

theorem settings_read_once_witness:
  "enabled ex_view1 \<noteq> None \<and> agree ex_world1 ex_world1_off \<and>
   (case run (Activate # ex_events_settings) init ex_world of (r, v', w') \<Rightarrow>
      reads w' = [''auto-save'', ''auto-save-interval'']) \<and>
   (case run ex_events_settings ex_view1 ex_world1 of (r1, v1, w1') \<Rightarrow>
      (case run (strip_settings ex_events_settings) ex_view1 ex_world1_off of (r2, v2, w2') \<Rightarrow>
         r1 = r2 \<and> v1 = v2 \<and> enabled v1 = Some True \<and> agree w1' w2'))"
proof -
  have h: "enabled ex_view1 \<noteq> None \<and> agree ex_world1 ex_world1_off" by code_simp
  have e: "enabled ex_view1 = Some True" by code_simp
  have r: "reads (snd (snd (run (Activate # ex_events_settings) init ex_world))) =
             [''auto-save'', ''auto-save-interval'']"
    by code_simp
  show ?thesis
    using h e r
      settings_read_once [where evs = "Activate # ex_events_settings" and w = ex_world
        and v = ex_view1 and ?w1.0 = ex_world1 and ?w2.0 = ex_world1_off]
      settings_read_once [where evs = ex_events_settings and w = ex_world
        and v = ex_view1 and ?w1.0 = ex_world1 and ?w2.0 = ex_world1_off]
    by (auto split: prod.splits)
qed

end
